theory Spec2Isabelle
  imports Main "HOL-Library.AList"
begin

section \<open>Data model of \<^verbatim>\<open>cluster-store.ts\<close>\<close>

text \<open>
  The store keeps \<^verbatim>\<open>Cluster\<close> objects in two insertion-ordered JavaScript maps and
  mutates those objects in place (\<^verbatim>\<open>cluster.enabled = true\<close>, \<^verbatim>\<open>cluster.updateModel\<close>,
  \<^verbatim>\<open>cluster.setState\<close>). Objects therefore live in an explicit object table; the maps hold
  references into it. A JavaScript \<^verbatim>\<open>Map\<close> is an association list: \<^verbatim>\<open>set\<close> on a key that
  is present replaces the value at its position, on a new key it appends
  (\<^const>\<open>AList.update\<close>); \<^verbatim>\<open>delete\<close> is \<^const>\<open>AList.delete\<close>; \<^verbatim>\<open>get\<close> is
  \<^const>\<open>map_of\<close>; \<^verbatim>\<open>undefined\<close> and \<^verbatim>\<open>null\<close> are \<^const>\<open>None\<close>.
\<close>

type_synonym ClusterId = string

typedecl json
  \<comment> \<open>free-form JSON values of the metadata bag; never inspected by the store\<close>

record PrometheusSettings =
  prom_namespace :: string
  prom_service :: string
  prom_port :: int
  prom_prefix :: string

record ClusterPreferences =
  terminalCWD :: "string option"
  clusterName :: "string option"
  iconOrder :: "int option"
  icon :: "string option"
  httpsProxy :: "string option"
  hiddenMetrics :: "string list option"
  prometheus :: "PrometheusSettings option"
  prometheusProvider :: "string option"

text \<open>\<^verbatim>\<open>interface ClusterModel\<close>; the field \<^verbatim>\<open>id\<close> is called \<open>cid\<close> here.\<close>

record ClusterModel =
  cid :: ClusterId
  kubeConfigPath :: string
  workspace :: "string option"
  contextName :: "string option"
  preferences :: "ClusterPreferences option"
  metadata :: "(string \<times> json) list option"
  ownerRef :: "string option"
  accessibleNamespaces :: "string list option"
  kubeConfig :: "string option"

datatype Phase = Disconnected | Connecting | Connected

text \<open>
  Modelled from the spec: the type \<^verbatim>\<open>ClusterState\<close> is imported from
  \<^verbatim>\<open>../main/cluster\<close>, which is not among the sources. The spec's connection state is
  one of disconnected, connecting, connected, plus the accessible and online flags, a
  version string, a distribution tag and the last error.
\<close>

record ClusterState =
  phase :: Phase
  online :: bool
  accessible :: bool
  version :: "string option"
  distribution :: "string option"
  lastError :: "string option"

text \<open>
  Modelled from the spec: the class \<^verbatim>\<open>Cluster\<close> is imported from \<^verbatim>\<open>../main/cluster\<close>,
  which is not among the sources. It implements \<^verbatim>\<open>ClusterModel\<close> (the persisted
  attributes) and adds the enabled flag, the API server URL resolved from the configuration
  context, and the connection state.
\<close>

record Cluster = ClusterModel +
  enabled :: bool
  apiUrl :: "string option"
  state :: ClusterState

text \<open>
  Modelled from the spec: the getter \<^verbatim>\<open>Cluster.isManaged\<close> is not among the sources;
  a cluster is owner-managed when its owner-reference is set.
\<close>

definition isManaged :: "Cluster \<Rightarrow> bool" where
  "isManaged c = (ownerRef c \<noteq> None)"

text \<open>Truthiness of an optional JavaScript string: absent and empty are falsy.\<close>

definition truthy :: "string option \<Rightarrow> bool" where
  "truthy s = (case s of None \<Rightarrow> False | Some t \<Rightarrow> t \<noteq> [])"

definition initialState :: ClusterState where
  "initialState = \<lparr>phase = Disconnected, online = False, accessible = False,
     version = None, distribution = None, lastError = None\<rparr>"

text \<open>
  Modelled from the spec: \<^verbatim>\<open>Cluster.updateModel\<close> is not among the sources. A cluster
  that reappears is updated in place: its persisted attributes are taken from the model,
  its enabled flag, API URL and live connection state stay.
\<close>

definition updateModel :: "Cluster \<Rightarrow> ClusterModel \<Rightarrow> Cluster" where
  "updateModel c m = c\<lparr>cid := cid m, kubeConfigPath := kubeConfigPath m,
     workspace := workspace m, contextName := contextName m,
     preferences := preferences m, metadata := metadata m, ownerRef := ownerRef m,
     accessibleNamespaces := accessibleNamespaces m, kubeConfig := kubeConfig m\<rparr>"

text \<open>
  Modelled from the spec: the constructor of \<^verbatim>\<open>Cluster\<close> is not among the sources. It
  builds the cluster from the configuration model, disabled and disconnected; the
  credential resolver \<open>loadApiUrl\<close> yields the server URL of the named context in the
  configuration file, and nothing when the bundle cannot be parsed or the context is
  empty or absent.
\<close>

definition new_Cluster ::
  "(string \<Rightarrow> string option \<Rightarrow> string option) \<Rightarrow> ClusterModel \<Rightarrow> Cluster" where
  "new_Cluster loadApiUrl m =
     \<lparr>cid = cid m, kubeConfigPath = kubeConfigPath m, workspace = workspace m,
      contextName = contextName m, preferences = preferences m, metadata = metadata m,
      ownerRef = ownerRef m, accessibleNamespaces = accessibleNamespaces m,
      kubeConfig = kubeConfig m,
      enabled = False, apiUrl = loadApiUrl (kubeConfigPath m) (contextName m),
      state = initialState\<rparr>"

text \<open>
  Modelled from the spec: \<^verbatim>\<open>Cluster.toJSON\<close> is not among the sources; its result type
  in \<^verbatim>\<open>ClusterStore.toJSON\<close> is \<^verbatim>\<open>ClusterModel\<close>, the persisted attributes.
\<close>

definition Cluster_toJSON :: "Cluster \<Rightarrow> ClusterModel" where
  "Cluster_toJSON c =
     \<lparr>cid = cid c, kubeConfigPath = kubeConfigPath c, workspace = workspace c,
      contextName = contextName c, preferences = preferences c, metadata = metadata c,
      ownerRef = ownerRef c, accessibleNamespaces = accessibleNamespaces c,
      kubeConfig = kubeConfig c\<rparr>"

text \<open>
  Modelled from the spec: \<^verbatim>\<open>Cluster.setState\<close> is not among the sources; an observer
  applies an incoming connection state to the cluster.
\<close>

definition setState :: "Cluster \<Rightarrow> ClusterState \<Rightarrow> Cluster" where
  "setState c st = c\<lparr>state := st\<rparr>"

subsection \<open>The store and the part of the world it acts on\<close>

type_synonym ref = nat

record File =
  contents :: string
  mode :: nat

type_synonym Disk = "string \<Rightarrow> File option"

text \<open>
  \<open>activeCluster\<close>, \<open>clusters\<close> and \<open>removedClusters\<close> are the observable fields of
  \<^verbatim>\<open>ClusterStore\<close>; \<open>objects\<close> is the table of allocated \<^verbatim>\<open>Cluster\<close> objects (a
  reference is an index into it), \<open>disk\<close> the files by path, \<open>emitted\<close> the events
  handed to \<^verbatim>\<open>appEventBus\<close> as (name, action).
\<close>

record World =
  activeCluster :: "ClusterId option"
  clusters :: "(ClusterId \<times> ref) list"
  removedClusters :: "(ClusterId \<times> ref) list"
  objects :: "Cluster list"
  disk :: Disk
  emitted :: "(string \<times> string) list"

text \<open>
  What the process is started with: the \<^verbatim>\<open>userData\<close> directory of the application, the
  working directory, the credential resolver used by the \<^verbatim>\<open>Cluster\<close> constructor, and
  the paths the operating system refuses to unlink.
\<close>

record Env =
  userData :: string
  cwd :: string
  loadApiUrl :: "string \<Rightarrow> string option \<Rightarrow> string option"
  unlinkDenied :: "string \<Rightarrow> bool"

section \<open>Lookup and activation\<close>

definition getById :: "World \<Rightarrow> ClusterId \<Rightarrow> ref option" where
  "getById w i = map_of (clusters w) i"

definition clustersList :: "World \<Rightarrow> ref list" where
  "clustersList w = map snd (clusters w)"

definition enabledClustersList :: "World \<Rightarrow> ref list" where
  "enabledClustersList w = filter (\<lambda>r. enabled (objects w ! r)) (clustersList w)"

definition isActive :: "World \<Rightarrow> ClusterId \<Rightarrow> bool" where
  "isActive w i = (activeCluster w = Some i)"

text \<open>
  \<^verbatim>\<open>setActive(clusterId)\<close>; the argument is \<^verbatim>\<open>null\<close> in the calls from \<^verbatim>\<open>deactivate\<close>
  and \<^verbatim>\<open>removeById\<close>, and \<^verbatim>\<open>cluster?.enabled\<close> is falsy when the lookup finds nothing.
\<close>

definition setActive :: "ClusterId option \<Rightarrow> World \<Rightarrow> World" where
  "setActive clusterId w =
     (let cluster = (case clusterId of None \<Rightarrow> None | Some i \<Rightarrow> map_of (clusters w) i);
          clusterId' = (if \<not> (case cluster of None \<Rightarrow> False
                                | Some r \<Rightarrow> enabled (objects w ! r))
                        then None else clusterId)
      in w\<lparr>activeCluster := clusterId'\<rparr>)"

definition deactivate :: "ClusterId \<Rightarrow> World \<Rightarrow> World" where
  "deactivate i w = (if isActive w i then setActive None w else w)"

text \<open>The registry invariant: the active identifier, if set, references an enabled cluster.\<close>

definition active_ok :: "World \<Rightarrow> bool" where
  "active_ok w =
     (case activeCluster w of None \<Rightarrow> True
      | Some i \<Rightarrow> (case map_of (clusters w) i of None \<Rightarrow> False
                   | Some r \<Rightarrow> enabled (objects w ! r)))"

section \<open>Adding a cluster\<close>

text \<open>
  \<^verbatim>\<open>addCluster(model: ClusterModel | Cluster)\<close>: the argument is a configuration model, from
  which a new object is constructed, or an existing \<^verbatim>\<open>Cluster\<close> object.
\<close>

datatype add_arg = Model ClusterModel | Instance ref

definition emit :: "string \<Rightarrow> string \<Rightarrow> World \<Rightarrow> World" where
  "emit name action w = w\<lparr>emitted := emitted w @ [(name, action)]\<rparr>"

definition addCluster :: "Env \<Rightarrow> add_arg \<Rightarrow> World \<Rightarrow> ref \<times> World" where
  "addCluster env model w =
     (let w1 = emit ''cluster'' ''add'' w;
          cluster = (case model of Instance r \<Rightarrow> r | Model m \<Rightarrow> length (objects w1));
          w2 = (case model of Instance r \<Rightarrow> w1
                | Model m \<Rightarrow> w1\<lparr>objects := objects w1 @ [new_Cluster (loadApiUrl env) m]\<rparr>);
          w3 = (if \<not> isManaged (objects w2 ! cluster)
                then w2\<lparr>objects := (objects w2)[cluster := (objects w2 ! cluster)\<lparr>enabled := True\<rparr>]\<rparr>
                else w2);
          model_id = (case model of Instance r \<Rightarrow> cid (objects w3 ! r) | Model m \<Rightarrow> cid m)
      in (cluster, w3\<lparr>clusters := AList.update model_id cluster (clusters w3)\<rparr>))"

text \<open>\<^verbatim>\<open>addClusters(...models)\<close> adds the models from left to right.\<close>

fun addClusters :: "Env \<Rightarrow> ClusterModel list \<Rightarrow> World \<Rightarrow> ref list \<times> World" where
  "addClusters env [] w = ([], w)"
| "addClusters env (m # ms) w =
     (let (r, w') = addCluster env (Model m) w; (rs, w'') = addClusters env ms w'
      in (r # rs, w''))"

definition addModel :: "Env \<Rightarrow> ClusterModel \<Rightarrow> World \<Rightarrow> World" where
  "addModel env m w = snd (addCluster env (Model m) w)"

text \<open>What a reader of the registry sees: the identifiers in order, each with its cluster.\<close>

definition entries :: "World \<Rightarrow> (ClusterId \<times> Cluster) list" where
  "entries w = map (\<lambda>(k, r). (k, objects w ! r)) (clusters w)"

text \<open>
  The representation invariant of the store: the keys of the map are distinct, every
  reference points at an allocated object, and every cluster is filed under its own
  identifier.
\<close>

definition refs_ok :: "World \<Rightarrow> bool" where
  "refs_ok w = list_all (\<lambda>(k, r). r < length (objects w)) (clusters w)"

definition keys_ok :: "World \<Rightarrow> bool" where
  "keys_ok w = list_all (\<lambda>(k, r). cid (objects w ! r) = k) (clusters w)"

definition store_ok :: "World \<Rightarrow> bool" where
  "store_ok w = (distinct (map fst (clusters w)) \<and> refs_ok w \<and> keys_ok w)"

section \<open>Paths and files\<close>

text \<open>
  \<^verbatim>\<open>path.resolve\<close> of Node.js on POSIX: the arguments are taken from the right, each
  non-empty one put in front, until one of them is absolute; when none is, the working
  directory comes last. The outcome is normalised: empty and \<^verbatim>\<open>.\<close> segments vanish, a
  \<^verbatim>\<open>..\<close> segment removes the segment before it (at the root of an absolute path it
  vanishes; in a relative path it stays when there is nothing to remove).
\<close>

fun split_path :: "string \<Rightarrow> string list" where
  "split_path [] = [[]]"
| "split_path (c # cs) =
     (if c = CHR ''/'' then [] # split_path cs
      else (case split_path cs of [] \<Rightarrow> [[c]] | s # ss \<Rightarrow> (c # s) # ss))"

fun join_path :: "string list \<Rightarrow> string" where
  "join_path [] = []"
| "join_path [s] = s"
| "join_path (s # t # ss) = s @ ''/'' @ join_path (t # ss)"

text \<open>The second list is the result so far, last segment first.\<close>

fun normalize_segments :: "bool \<Rightarrow> string list \<Rightarrow> string list \<Rightarrow> string list" where
  "normalize_segments allowAboveRoot [] res = rev res"
| "normalize_segments allowAboveRoot (s # ss) res =
     (if s = [] \<or> s = ''.'' then normalize_segments allowAboveRoot ss res
      else if s = ''..'' then
        (case res of
           [] \<Rightarrow> normalize_segments allowAboveRoot ss (if allowAboveRoot then [''..''] else [])
         | t # ts \<Rightarrow>
             if t \<noteq> ''..'' then normalize_segments allowAboveRoot ss ts
             else normalize_segments allowAboveRoot ss
                    (if allowAboveRoot then ''..'' # res else res))
      else normalize_segments allowAboveRoot ss (s # res))"

definition normalizeString :: "string \<Rightarrow> bool \<Rightarrow> string" where
  "normalizeString path allowAboveRoot =
     join_path (normalize_segments allowAboveRoot (split_path path) [])"

definition isAbsolute :: "string \<Rightarrow> bool" where
  "isAbsolute p = (case p of [] \<Rightarrow> False | c # _ \<Rightarrow> c = CHR ''/'')"

text \<open>The arguments come last first; the result is the joined path and whether it is absolute.\<close>

fun prepend_until_absolute :: "string list \<Rightarrow> string \<Rightarrow> string \<times> bool" where
  "prepend_until_absolute [] resolvedPath = (resolvedPath, False)"
| "prepend_until_absolute (p # ps) resolvedPath =
     (if p = [] then prepend_until_absolute ps resolvedPath
      else if isAbsolute p then (p @ ''/'' @ resolvedPath, True)
      else prepend_until_absolute ps (p @ ''/'' @ resolvedPath))"

definition path_resolve :: "string \<Rightarrow> string list \<Rightarrow> string" where
  "path_resolve workdir args =
     (case prepend_until_absolute (rev args @ [workdir]) [] of
        (resolvedPath, resolvedAbsolute) \<Rightarrow>
          (let normalized = normalizeString resolvedPath (\<not> resolvedAbsolute)
           in if resolvedAbsolute then ''/'' @ normalized
              else if normalized \<noteq> [] then normalized else ''.''))"

text \<open>
  The directories on the way to an absolute path, and whether a path lies strictly below
  a directory.
\<close>

definition path_segments :: "string \<Rightarrow> string list" where
  "path_segments p = normalize_segments False (split_path p) []"

definition under_dir :: "string \<Rightarrow> string \<Rightarrow> bool" where
  "under_dir dir p =
     (length (path_segments dir) < length (path_segments p)
      \<and> take (length (path_segments dir)) (path_segments p) = path_segments dir)"

text \<open>
  An identifier that is one ordinary path segment: not empty, without a slash, and neither
  \<^verbatim>\<open>.\<close> nor \<^verbatim>\<open>..\<close>.
\<close>

definition plain_segment :: "string \<Rightarrow> bool" where
  "plain_segment s = (s \<noteq> [] \<and> s \<noteq> ''.'' \<and> s \<noteq> ''..'' \<and> CHR ''/'' \<notin> set s)"

definition getCustomKubeConfigPath :: "Env \<Rightarrow> ClusterId \<Rightarrow> string" where
  "getCustomKubeConfigPath env clusterId =
     path_resolve (cwd env) [userData env, ''kubeconfigs'', clusterId]"

text \<open>
  Modelled from the spec: \<^verbatim>\<open>saveToAppFiles\<close> is imported from \<^verbatim>\<open>./utils/saveToAppFiles\<close>,
  which is not among the sources; it persists the text to the file at the given path with
  the given permission bits.
\<close>

definition saveToAppFiles :: "string \<Rightarrow> string \<Rightarrow> nat \<Rightarrow> Disk \<Rightarrow> Disk" where
  "saveToAppFiles filePath fileContents fileMode d =
     d(filePath \<mapsto> \<lparr>contents = fileContents, mode = fileMode\<rparr>)"

text \<open>
  \<^verbatim>\<open>embedCustomKubeConfig(clusterId, kubeConfig: KubeConfig | string)\<close>; a configuration
  object is serialised by \<^verbatim>\<open>dumpConfigYaml\<close>, a parameter here. The mode is \<^verbatim>\<open>0o600\<close>.
\<close>

datatype 'k kubeconfig_arg = InlineText string | ConfigObject 'k

definition embedCustomKubeConfig ::
  "Env \<Rightarrow> ('k \<Rightarrow> string) \<Rightarrow> ClusterId \<Rightarrow> 'k kubeconfig_arg \<Rightarrow> Disk \<Rightarrow> string \<times> Disk" where
  "embedCustomKubeConfig env dumpConfigYaml clusterId config d =
     (let filePath = getCustomKubeConfigPath env clusterId;
          fileContents = (case config of InlineText t \<Rightarrow> t
                          | ConfigObject k \<Rightarrow> dumpConfigYaml k)
      in (filePath, saveToAppFiles filePath fileContents (6 * 8 * 8 + 0 * 8 + 0) d))"

text \<open>
  \<^verbatim>\<open>unlink\<close> of \<^verbatim>\<open>fs-extra\<close> returns a promise that is rejected when there is no file at
  the path or when the operating system refuses to remove it.
\<close>

datatype fs_error = ENOENT | EACCES

definition unlink :: "Env \<Rightarrow> string \<Rightarrow> Disk \<Rightarrow> fs_error + Disk" where
  "unlink env p d =
     (case d p of None \<Rightarrow> Inl ENOENT
      | Some f \<Rightarrow> if unlinkDenied env p then Inl EACCES else Inr (d(p := None)))"

text \<open>\<^verbatim>\<open>promise.catch(noop)\<close>: a rejection is turned into a fulfilled promise.\<close>

definition catch_noop :: "fs_error + Disk \<Rightarrow> Disk \<Rightarrow> fs_error + Disk" where
  "catch_noop res d = (case res of Inl e \<Rightarrow> Inr d | Inr d' \<Rightarrow> Inr d')"

section \<open>Removing a cluster\<close>

text \<open>
  \<^verbatim>\<open>async removeById(clusterId)\<close>; the result is the promise's outcome: \<open>Inl\<close> a
  rejection, \<open>Inr\<close> the world after it is fulfilled.
\<close>

definition removeById :: "Env \<Rightarrow> ClusterId \<Rightarrow> World \<Rightarrow> fs_error + World" where
  "removeById env clusterId w =
     (let w1 = emit ''cluster'' ''remove'' w
      in case getById w1 clusterId of
           None \<Rightarrow> Inr w1
         | Some cluster \<Rightarrow>
             (let w2 = w1\<lparr>clusters := AList.delete clusterId (clusters w1)\<rparr>;
                  w3 = (if activeCluster w2 = Some clusterId then setActive None w2 else w2)
              in if kubeConfigPath (objects w3 ! cluster) = getCustomKubeConfigPath env clusterId
                 then (case catch_noop (unlink env (kubeConfigPath (objects w3 ! cluster)) (disk w3))
                              (disk w3) of
                         Inl e \<Rightarrow> Inl e
                       | Inr d \<Rightarrow> Inr (w3\<lparr>disk := d\<rparr>))
                 else Inr w3))"

definition removeCluster :: "Env \<Rightarrow> ClusterModel \<Rightarrow> World \<Rightarrow> fs_error + World" where
  "removeCluster env model w = removeById env (cid model) w"

section \<open>Reload and serialisation\<close>

text \<open>
  \<^verbatim>\<open>interface ClusterStoreModel\<close>: both fields are optional; an absent argument of
  \<^verbatim>\<open>fromStore\<close> is the snapshot with both fields absent.
\<close>

record ClusterStoreModel =
  snap_activeCluster :: "ClusterId option"
  snap_clusters :: "ClusterModel list option"

text \<open>
  The \<^verbatim>\<open>else\<close> branch of the loop over the snapshot's models: a model that is not in
  memory gets a new cluster, enabled only if it is not owner-managed and has an API URL.
\<close>

definition fromStore_new :: "Env \<Rightarrow> ClusterModel \<Rightarrow> Cluster" where
  "fromStore_new env clusterModel =
     (let cluster = new_Cluster (loadApiUrl env) clusterModel
      in if \<not> isManaged cluster \<and> truthy (apiUrl cluster)
         then cluster\<lparr>enabled := True\<rparr> else cluster)"

text \<open>One round of that loop: the object table and \<^verbatim>\<open>newClusters\<close>.\<close>

definition fromStore_step ::
  "Env \<Rightarrow> (ClusterId \<times> ref) list \<Rightarrow> Cluster list \<times> (ClusterId \<times> ref) list \<Rightarrow> ClusterModel
     \<Rightarrow> Cluster list \<times> (ClusterId \<times> ref) list" where
  "fromStore_step env currentClusters acc clusterModel =
     (case acc of (objs, newClusters) \<Rightarrow>
       (case map_of currentClusters (cid clusterModel) of
          Some cluster \<Rightarrow>
            (objs[cluster := updateModel (objs ! cluster) clusterModel],
             AList.update (cid clusterModel) cluster newClusters)
        | None \<Rightarrow>
            (objs @ [fromStore_new env clusterModel],
             AList.update (cid clusterModel) (length objs) newClusters)))"

text \<open>One round of the loop over the clusters held so far: \<^verbatim>\<open>removedClusters\<close>.\<close>

definition fromStore_removed_step ::
  "Cluster list \<Rightarrow> (ClusterId \<times> ref) list \<Rightarrow> (ClusterId \<times> ref) list \<Rightarrow> ClusterId \<times> ref
     \<Rightarrow> (ClusterId \<times> ref) list" where
  "fromStore_removed_step objs newClusters removed entry =
     (case entry of (k, cluster) \<Rightarrow>
        if map_of newClusters (cid (objs ! cluster)) = None
        then AList.update (cid (objs ! cluster)) cluster removed
        else removed)"

text \<open>The default of the destructured parameter: \<^verbatim>\<open>clusters = []\<close>.\<close>

definition snap_models :: "ClusterStoreModel \<Rightarrow> ClusterModel list" where
  "snap_models snapshot = (case snap_clusters snapshot of None \<Rightarrow> [] | Some ms \<Rightarrow> ms)"

definition fromStore :: "Env \<Rightarrow> ClusterStoreModel \<Rightarrow> World \<Rightarrow> World" where
  "fromStore env snapshot w =
     (let currentClusters = clusters w;
          models = snap_models snapshot;
          looped = foldl (fromStore_step env currentClusters) (objects w, []) models;
          objs = fst looped;
          newClusters = snd looped;
          removed = foldl (fromStore_removed_step objs newClusters) [] currentClusters;
          active = (case snap_activeCluster snapshot of None \<Rightarrow> None
                    | Some a \<Rightarrow> (case map_of newClusters a of None \<Rightarrow> None
                                 | Some r \<Rightarrow> if enabled (objs ! r) then Some a else None))
      in w\<lparr>activeCluster := active, clusters := newClusters, removedClusters := removed,
           objects := objs\<rparr>)"

definition toJSON :: "World \<Rightarrow> ClusterStoreModel" where
  "toJSON w = \<lparr>snap_activeCluster = activeCluster w,
     snap_clusters = Some (map (\<lambda>r. Cluster_toJSON (objects w ! r)) (clustersList w))\<rparr>"

text \<open>
  The identifiers of the enabled clusters, in the registry's order, and the condition that
  every cluster's enabled flag is the one \<^verbatim>\<open>fromStore\<close> gives a cluster it constructs.
\<close>

definition enabledClusterIds :: "World \<Rightarrow> ClusterId list" where
  "enabledClusterIds w = map fst (filter (\<lambda>(k, r). enabled (objects w ! r)) (clusters w))"

definition resolves_as_enabled :: "Env \<Rightarrow> World \<Rightarrow> bool" where
  "resolves_as_enabled env w =
     list_all (\<lambda>(k, r). enabled (objects w ! r)
        = (\<not> isManaged (objects w ! r)
           \<and> truthy (loadApiUrl env (kubeConfigPath (objects w ! r)) (contextName (objects w ! r)))))
       (clusters w)"

section \<open>Observers of the connection state\<close>

text \<open>
  The callback subscribed in \<^verbatim>\<open>registerIpcListener\<close>, and the body of the loop over the
  answer to the initial state request in \<^verbatim>\<open>load\<close>:
  \<^verbatim>\<open>this.getById(clusterId)?.setState(state)\<close>.
\<close>

definition applyState :: "ClusterId \<Rightarrow> ClusterState \<Rightarrow> World \<Rightarrow> World" where
  "applyState clusterId st w =
     (case getById w clusterId of None \<Rightarrow> w
      | Some cluster \<Rightarrow>
          w\<lparr>objects := (objects w)[cluster := setState (objects w ! cluster) st]\<rparr>)"

definition load_stateSync :: "(ClusterId \<times> ClusterState) list \<Rightarrow> World \<Rightarrow> World" where
  "load_stateSync clusterStates w = foldl (\<lambda>w' (i, st). applyState i st w') w clusterStates"

text \<open>The answer of the main process to the state request: identifier and state of every cluster.\<close>

definition stateRequestHandler :: "World \<Rightarrow> (ClusterId \<times> ClusterState) list" where
  "stateRequestHandler w =
     map (\<lambda>r. (cid (objects w ! r), state (objects w ! r))) (clustersList w)"

section \<open>Concrete values used to run the definitions\<close>

definition model_c1 :: ClusterModel where
  "model_c1 = \<lparr>cid = ''c1'', kubeConfigPath = ''/home/u/.kube/config'', workspace = None,
     contextName = Some ''dev'', preferences = None, metadata = None, ownerRef = None,
     accessibleNamespaces = None, kubeConfig = None\<rparr>"

definition env0 :: Env where
  "env0 = \<lparr>userData = ''/home/u/.config/Lens'', cwd = ''/home/u'',
     loadApiUrl = (\<lambda>p c. if p = ''/home/u/.kube/config'' \<and> c = Some ''dev''
                          then Some ''https://10.0.0.1:6443'' else None),
     unlinkDenied = (\<lambda>p. False)\<rparr>"

definition world0 :: World where
  "world0 = \<lparr>activeCluster = None, clusters = [], removedClusters = [], objects = [],
     disk = (\<lambda>p. None), emitted = []\<rparr>"

definition world1 :: World where
  "world1 = world0\<lparr>clusters := [(''c1'', 0), (''c2'', 1)],
     objects := [(new_Cluster (loadApiUrl env0) model_c1)\<lparr>enabled := True\<rparr>,
                 new_Cluster (loadApiUrl env0) (model_c1\<lparr>cid := ''c2'', ownerRef := Some ''ext''\<rparr>)]\<rparr>"

definition model_c1b :: ClusterModel where
  "model_c1b = model_c1\<lparr>kubeConfigPath := ''/home/u/other.yaml'', contextName := Some ''prod''\<rparr>"

definition model_nocontext :: ClusterModel where
  "model_nocontext = \<lparr>cid = ''c9'', kubeConfigPath = ''/home/u/missing.yaml'', workspace = None,
     contextName = Some [], preferences = None, metadata = None, ownerRef = None,
     accessibleNamespaces = None, kubeConfig = None\<rparr>"

definition state_up :: ClusterState where
  "state_up = \<lparr>phase = Connected, online = True, accessible = True,
     version = Some ''1.20'', distribution = None, lastError = None\<rparr>"

definition env_denied :: Env where
  "env_denied = env0\<lparr>unlinkDenied := (\<lambda>p. True)\<rparr>"

definition model_pasted :: ClusterModel where
  "model_pasted = model_c1\<lparr>cid := ''p1'',
     kubeConfigPath := ''/home/u/.config/Lens/kubeconfigs/p1''\<rparr>"

definition world_pasted :: World where
  "world_pasted = world0\<lparr>disk :=
     snd (embedCustomKubeConfig env0 (\<lambda>k::unit. []) ''p1'' (InlineText ''apiVersion: v1'')
            (disk world0))\<rparr>"

definition model_c2b :: ClusterModel where
  "model_c2b = model_c1\<lparr>cid := ''c2'', contextName := Some ''staging'', ownerRef := Some ''ext''\<rparr>"

definition model_c3 :: ClusterModel where
  "model_c3 = model_c1\<lparr>cid := ''c3''\<rparr>"

definition snapshot23 :: ClusterStoreModel where
  "snapshot23 = \<lparr>snap_activeCluster = Some ''c3'', snap_clusters = Some [model_c2b, model_c3]\<rparr>"

definition world_stale_active :: World where
  "world_stale_active =
     addModel env0 (model_c1\<lparr>ownerRef := Some ''ext''\<rparr>)
       (setActive (Some ''c1'') (addModel env0 model_c1 world0))"

definition world_managed_enabled :: World where
  "world_managed_enabled =
     world1\<lparr>objects := (objects world1)[1 := (objects world1 ! 1)\<lparr>enabled := True\<rparr>]\<rparr>"

section \<open>Properties of adding\<close>

lemma count_key_distinct:
  "distinct (map fst al) \<Longrightarrow> k \<in> fst ` set al \<Longrightarrow> length (filter (\<lambda>p. fst p = k) al) = 1"
  by (induction al) (auto simp: filter_empty_conv image_iff)

lemma addCluster_Model_simps:
  "fst (addCluster env (Model m) w) = length (objects w)"
  "objects (snd (addCluster env (Model m) w)) =
     objects w @ [(new_Cluster (loadApiUrl env) m)\<lparr>enabled := (ownerRef m = None)\<rparr>]"
  "clusters (snd (addCluster env (Model m) w)) =
     AList.update (cid m) (length (objects w)) (clusters w)"
  "activeCluster (snd (addCluster env (Model m) w)) = activeCluster w"
  "removedClusters (snd (addCluster env (Model m) w)) = removedClusters w"
  "disk (snd (addCluster env (Model m) w)) = disk w"
  "emitted (snd (addCluster env (Model m) w)) = emitted w @ [(''cluster'', ''add'')]"
  by (simp_all add: addCluster_def Let_def emit_def isManaged_def new_Cluster_def)

lemma map_update_alloc:
  "list_all (\<lambda>(k', r). r < length os) al \<Longrightarrow>
   map (\<lambda>(k', r). (k', (os @ [c]) ! r)) (AList.update k (length os) al)
     = AList.update k c (map (\<lambda>(k', r). (k', os ! r)) al)"
  by (induction al) (auto simp: nth_append list_all_iff)

lemma refs_ok_update_alloc:
  "list_all (\<lambda>(k', r). r < length os) al \<Longrightarrow>
   list_all (\<lambda>(k', r). r < Suc (length os)) (AList.update k (length os) al)"
  by (induction al) (auto simp: less_Suc_eq list_all_iff)

lemma entries_addModel:
  "refs_ok w \<Longrightarrow> entries (addModel env m w)
     = AList.update (cid m) ((new_Cluster (loadApiUrl env) m)\<lparr>enabled := (ownerRef m = None)\<rparr>) (entries w)"
  by (simp add: entries_def addModel_def addCluster_Model_simps refs_ok_def map_update_alloc)

lemma refs_ok_addModel: "refs_ok w \<Longrightarrow> refs_ok (addModel env m w)"
  by (simp add: addModel_def addCluster_Model_simps refs_ok_def refs_ok_update_alloc)

text \<open>
  Claim C2. In every registry, the empty one included, adding a configuration model puts
  a new cluster with the model's attributes into the object table, files it under the
  model's identifier, and enables it exactly when the model carries no owner-reference:
  the constructed cluster starts disabled, and \<^verbatim>\<open>addCluster\<close> leaves the flag alone for
  an owner-managed cluster. Adding an existing \<^verbatim>\<open>Cluster\<close> object enables it when it has
  no owner-reference and otherwise leaves its enabled flag as it was, so a disabled
  owner-managed cluster is still disabled after the call; its attributes stay and it is
  filed under its identifier.
\<close>

theorem addCluster_enables_unless_managed:
  "fst (addCluster env (Model m) w) < length (objects (snd (addCluster env (Model m) w)))
   \<and> enabled (objects (snd (addCluster env (Model m) w)) ! fst (addCluster env (Model m) w))
       = (ownerRef m = None)
   \<and> Cluster_toJSON (objects (snd (addCluster env (Model m) w)) ! fst (addCluster env (Model m) w))
       = m
   \<and> getById (snd (addCluster env (Model m) w)) (cid m) = Some (fst (addCluster env (Model m) w))
   \<and> (r < length (objects w) \<longrightarrow>
         fst (addCluster env (Instance r) w) = r
         \<and> enabled (objects (snd (addCluster env (Instance r) w)) ! r)
             = (if ownerRef (objects w ! r) = None then True else enabled (objects w ! r))
         \<and> Cluster_toJSON (objects (snd (addCluster env (Instance r) w)) ! r)
             = Cluster_toJSON (objects w ! r)
         \<and> getById (snd (addCluster env (Instance r) w)) (cid (objects w ! r)) = Some r)"
  by (simp add: addCluster_def Let_def emit_def isManaged_def new_Cluster_def getById_def
      AList.update_conv' Cluster_toJSON_def)

theorem addCluster_enables_unless_managed_witness:
  "enabled (objects (snd (addCluster env0 (Model model_c1) world0)) ! 0)
   \<and> \<not> enabled (objects (snd (addCluster env0 (Model (model_c1\<lparr>ownerRef := Some ''ext''\<rparr>)) world0)) ! 0)
   \<and> getById (snd (addCluster env0 (Model (model_c1\<lparr>ownerRef := Some ''ext''\<rparr>)) world0)) ''c1'' = Some 0
   \<and> (1::nat) < length (objects world1)
   \<and> \<not> enabled (objects world1 ! 1)
   \<and> ownerRef (objects world1 ! 1) = Some ''ext''
   \<and> \<not> enabled (objects (snd (addCluster env0 (Instance 1) world1)) ! 1)
   \<and> ownerRef (objects world1 ! 0) = None
   \<and> enabled (objects (snd (addCluster env0 (Instance 0)
        (world1\<lparr>objects := (objects world1)[0 := (objects world1 ! 0)\<lparr>enabled := False\<rparr>]\<rparr>))) ! 0)"
  using addCluster_enables_unless_managed [of env0 model_c1 world0 0]
    addCluster_enables_unless_managed [of env0 "model_c1\<lparr>ownerRef := Some ''ext''\<rparr>" world0 0]
    addCluster_enables_unless_managed [of env0 model_c1 world1 1]
    addCluster_enables_unless_managed [of env0 model_c1
      "world1\<lparr>objects := (objects world1)[0 := (objects world1 ! 0)\<lparr>enabled := False\<rparr>]\<rparr>" 0]
  by (simp add: addCluster_Model_simps world1_def world0_def new_Cluster_def model_c1_def
      getById_def AList.update_conv')

text \<open>
  Claim C3. For every registry and every two models with the same identifier, adding the
  second while the first is present keeps the list of identifiers as it is (the entry is
  replaced at its position), leaves exactly one entry for the identifier, makes that
  entry the cluster built from the second model, and touches no other entry nor the
  active identifier. Adding the same model again leaves the registry's entries unchanged.
  The cluster object of the entry is a newly constructed one.
\<close>

theorem addCluster_same_id_one_entry:
  assumes "distinct (map fst (clusters w))" and "refs_ok w" and "cid m2 = cid m1"
  shows "map fst (clusters (addModel env m2 (addModel env m1 w))) = map fst (clusters (addModel env m1 w))
   \<and> length (filter (\<lambda>p. fst p = cid m1) (clusters (addModel env m2 (addModel env m1 w)))) = 1
   \<and> map_of (entries (addModel env m2 (addModel env m1 w))) (cid m1)
       = Some ((new_Cluster (loadApiUrl env) m2)\<lparr>enabled := (ownerRef m2 = None)\<rparr>)
   \<and> (\<forall>k. k \<noteq> cid m1 \<longrightarrow> map_of (entries (addModel env m2 (addModel env m1 w))) k
                               = map_of (entries (addModel env m1 w)) k)
   \<and> activeCluster (addModel env m2 (addModel env m1 w)) = activeCluster (addModel env m1 w)
   \<and> (m2 = m1 \<longrightarrow> entries (addModel env m2 (addModel env m1 w)) = entries (addModel env m1 w))"
proof -
  let ?w1 = "addModel env m1 w" and ?w2 = "addModel env m2 (addModel env m1 w)"
  have ok1: "refs_ok ?w1" using assms(2) by (rule refs_ok_addModel)
  have keys1: "cid m1 \<in> fst ` set (clusters ?w1)"
    by (simp add: addModel_def addCluster_Model_simps AList.dom_update)
  have d1: "distinct (map fst (clusters ?w1))"
    using assms(1) by (simp add: addModel_def addCluster_Model_simps AList.distinct_update)
  have k2: "map fst (clusters ?w2) = map fst (clusters ?w1)"
    using keys1 assms(3)
    by (simp add: addModel_def addCluster_Model_simps AList.update_keys)
  have d2: "distinct (map fst (clusters ?w2))" using d1 k2 by simp
  have in2: "cid m1 \<in> fst ` set (clusters ?w2)"
    using keys1 k2 by (metis list.set_map)
  have one: "length (filter (\<lambda>p. fst p = cid m1) (clusters ?w2)) = 1"
    using d2 in2 by (rule count_key_distinct)
  have e2: "entries ?w2 = AList.update (cid m1)
      ((new_Cluster (loadApiUrl env) m2)\<lparr>enabled := (ownerRef m2 = None)\<rparr>) (entries ?w1)"
    using ok1 assms(3) by (simp add: entries_addModel)
  have e1: "entries ?w1 = AList.update (cid m1)
      ((new_Cluster (loadApiUrl env) m1)\<lparr>enabled := (ownerRef m1 = None)\<rparr>) (entries w)"
    using assms(2) by (simp add: entries_addModel)
  have idem: "m2 = m1 \<longrightarrow> entries ?w2 = entries ?w1"
  proof
    assume "m2 = m1"
    with e2 have "entries ?w2 = AList.update (cid m1)
      ((new_Cluster (loadApiUrl env) m1)\<lparr>enabled := (ownerRef m1 = None)\<rparr>) (entries ?w1)"
      by simp
    also have "\<dots> = entries ?w1" by (subst (1 2) e1) simp
    finally show "entries ?w2 = entries ?w1" .
  qed
  have act: "activeCluster ?w2 = activeCluster ?w1"
    by (simp add: addModel_def addCluster_Model_simps)
  show ?thesis using k2 one idem act by (simp add: e2 AList.update_conv')
qed

theorem addCluster_same_id_one_entry_witness:
  "distinct (map fst (clusters world1)) \<and> refs_ok world1 \<and> cid model_c1b = cid model_c1
   \<and> map fst (clusters (addModel env0 model_c1b (addModel env0 model_c1 world1))) = [''c1'', ''c2'']
   \<and> length (filter (\<lambda>p. fst p = ''c1'') (clusters (addModel env0 model_c1b (addModel env0 model_c1 world1)))) = 1
   \<and> entries (addModel env0 model_c1 (addModel env0 model_c1 world1)) = entries (addModel env0 model_c1 world1)"
  using addCluster_same_id_one_entry [of world1 model_c1b model_c1 env0]
     addCluster_same_id_one_entry [of world1 model_c1 model_c1 env0]
  by (simp add: addModel_def addCluster_Model_simps world1_def world0_def model_c1_def model_c1b_def refs_ok_def)

section \<open>Enabling without an API URL; observers\<close>

text \<open>
  Claim C5. A cluster whose configuration context is empty or cannot be resolved has no
  API URL. \<^verbatim>\<open>fromStore\<close> enables a new cluster only when it is not owner-managed and
  has an API URL; \<^verbatim>\<open>addCluster\<close> asks only whether it is owner-managed. A model with an
  empty context and no owner-reference is therefore enabled by \<^verbatim>\<open>addCluster\<close>, while the
  same model reloaded by \<^verbatim>\<open>fromStore\<close> stays disabled.
\<close>

theorem addCluster_enables_unresolved_context:
  "apiUrl (objects (addModel env0 model_nocontext world0) ! 0) = None
   \<and> enabled (objects (addModel env0 model_nocontext world0) ! 0)
   \<and> getById (addModel env0 model_nocontext world0) ''c9'' = Some 0
   \<and> \<not> enabled (objects (fromStore env0
          \<lparr>snap_activeCluster = None, snap_clusters = Some [model_nocontext]\<rparr> world0) ! 0)
   \<and> getById (fromStore env0
          \<lparr>snap_activeCluster = None, snap_clusters = Some [model_nocontext]\<rparr> world0) ''c9'' = Some 0"
  by (simp add: addModel_def addCluster_Model_simps world0_def env0_def model_nocontext_def
      new_Cluster_def getById_def fromStore_def fromStore_step_def fromStore_new_def
      snap_models_def Let_def isManaged_def truthy_def)

lemma getById_applyState: "getById (applyState i st w) k = getById w k"
  by (simp add: applyState_def getById_def split: option.splits)

lemma load_stateSync_Cons:
  "load_stateSync ((i, st) # msgs) w = load_stateSync msgs (applyState i st w)"
  by (simp add: load_stateSync_def)

lemma load_stateSync_known:
  "load_stateSync msgs w = load_stateSync (filter (\<lambda>(i, st). getById w i \<noteq> None) msgs) w"
proof (induction msgs arbitrary: w)
  case Nil
  show ?case by simp
next
  case (Cons msg msgs)
  obtain i st where msg: "msg = (i, st)" by (cases msg)
  have same: "filter (\<lambda>(j, s). getById (applyState i st w) j \<noteq> None) msgs
      = filter (\<lambda>(j, s). getById w j \<noteq> None) msgs"
    by (simp add: getById_applyState)
  show ?case
  proof (cases "getById w i")
    case None
    then have "applyState i st w = w" by (simp add: applyState_def)
    with None Cons.IH [of w] show ?thesis by (simp add: msg load_stateSync_Cons)
  next
    case (Some r)
    have "load_stateSync (msg # msgs) w = load_stateSync msgs (applyState i st w)"
      by (simp add: msg load_stateSync_Cons)
    also have "\<dots> = load_stateSync (filter (\<lambda>(j, s). getById w j \<noteq> None) msgs)
        (applyState i st w)"
      using Cons.IH [of "applyState i st w"] by (simp only: same)
    also have "\<dots> = load_stateSync (filter (\<lambda>(j, s). getById w j \<noteq> None) (msg # msgs)) w"
      using Some by (simp add: msg load_stateSync_Cons)
    finally show ?thesis .
  qed
qed

lemma load_stateSync_snoc:
  "load_stateSync (msgs @ [(i, st)]) w = applyState i st (load_stateSync msgs w)"
  by (simp add: load_stateSync_def)

lemma getById_load_stateSync: "getById (load_stateSync msgs w) k = getById w k"
  by (induction msgs rule: rev_induct) (auto simp: load_stateSync_def getById_applyState)

lemma load_stateSync_fields:
  "clusters (load_stateSync msgs w) = clusters w"
  "activeCluster (load_stateSync msgs w) = activeCluster w"
  "removedClusters (load_stateSync msgs w) = removedClusters w"
  "disk (load_stateSync msgs w) = disk w"
  "length (objects (load_stateSync msgs w)) = length (objects w)"
  by (induction msgs rule: rev_induct)
     (auto simp: load_stateSync_def applyState_def split: option.splits)

lemma setState_twice: "setState (setState c s) t = setState c t"
  by (simp add: setState_def)

text \<open>After the loop, an object holds the state of the last message that the lookup resolves to it.\<close>

lemma load_stateSync_object:
  assumes "r < length (objects w)"
  shows "objects (load_stateSync msgs w) ! r
    = (if filter (\<lambda>(j, s). getById w j = Some r) msgs = [] then objects w ! r
       else setState (objects w ! r) (snd (last (filter (\<lambda>(j, s). getById w j = Some r) msgs))))"
proof (induction msgs rule: rev_induct)
  case Nil
  show ?case by (simp add: load_stateSync_def)
next
  case (snoc msg msgs)
  obtain i st where msg: "msg = (i, st)" by (cases msg)
  let ?w1 = "load_stateSync msgs w"
  have len: "r < length (objects ?w1)" using assms by (simp add: load_stateSync_fields)
  have look: "getById ?w1 i = getById w i" by (rule getById_load_stateSync)
  show ?case
  proof (cases "getById w i = Some r")
    case True
    with look have "objects (applyState i st ?w1) ! r = setState (objects ?w1 ! r) st"
      using len by (simp add: applyState_def)
    also have "\<dots> = setState (objects w ! r) st"
      by (simp add: snoc.IH setState_twice)
    finally show ?thesis using True by (simp add: msg load_stateSync_snoc)
  next
    case False
    with look have "objects (applyState i st ?w1) ! r = objects ?w1 ! r"
      by (auto simp: applyState_def split: option.splits)
    with False snoc.IH show ?thesis by (simp add: msg load_stateSync_snoc)
  qed
qed

text \<open>
  Claim C9. An incoming state is applied to the cluster that the identifier lookup finds:
  that object gets the state, everything else stays. When the lookup finds nothing, the
  message changes nothing at all. The loop over the initial state-sync answer applies the
  messages in order; afterwards every object holds the state of the last message whose
  identifier resolves to it, and is untouched when there is none. The maps, the active
  identifier and the number of objects never change, so the loop behaves as if the
  messages for unknown identifiers had not been in the answer, and an answer that names
  only unknown identifiers leaves everything as it was. The functions are total: there is
  no error outcome.
\<close>

theorem applyState_by_lookup:
  "(getById w i = None \<longrightarrow> applyState i st w = w)
   \<and> (\<forall>r. getById w i = Some r \<longrightarrow>
          applyState i st w = w\<lparr>objects := (objects w)[r := setState (objects w ! r) st]\<rparr>
          \<and> (r < length (objects w) \<longrightarrow> state (objects (applyState i st w) ! r) = st))
   \<and> clusters (applyState i st w) = clusters w
   \<and> activeCluster (applyState i st w) = activeCluster w
   \<and> load_stateSync [] w = w
   \<and> load_stateSync (msgs @ [(i, st)]) w = applyState i st (load_stateSync msgs w)
   \<and> clusters (load_stateSync msgs w) = clusters w
   \<and> activeCluster (load_stateSync msgs w) = activeCluster w
   \<and> removedClusters (load_stateSync msgs w) = removedClusters w
   \<and> length (objects (load_stateSync msgs w)) = length (objects w)
   \<and> (\<forall>r < length (objects w).
         objects (load_stateSync msgs w) ! r
           = (if filter (\<lambda>(j, s). getById w j = Some r) msgs = [] then objects w ! r
              else setState (objects w ! r)
                     (snd (last (filter (\<lambda>(j, s). getById w j = Some r) msgs)))))
   \<and> load_stateSync msgs w = load_stateSync (filter (\<lambda>(j, s). getById w j \<noteq> None) msgs) w
   \<and> (list_all (\<lambda>(j, s). getById w j = None) msgs \<longrightarrow> load_stateSync msgs w = w)"
proof -
  have drop_all: "list_all (\<lambda>(j, s). getById w j = None) msgs \<longrightarrow> load_stateSync msgs w = w"
  proof
    assume "list_all (\<lambda>(j, s). getById w j = None) msgs"
    then have "filter (\<lambda>(j, s). getById w j \<noteq> None) msgs = []"
      by (auto simp: list_all_iff filter_empty_conv)
    with load_stateSync_known [of msgs w] show "load_stateSync msgs w = w"
      by (simp add: load_stateSync_def)
  qed
  have known: "load_stateSync msgs w
      = load_stateSync (filter (\<lambda>(j, s). getById w j \<noteq> None) msgs) w"
    by (rule load_stateSync_known)
  have single: "(getById w i = None \<longrightarrow> applyState i st w = w)
   \<and> (\<forall>r. getById w i = Some r \<longrightarrow>
          applyState i st w = w\<lparr>objects := (objects w)[r := setState (objects w ! r) st]\<rparr>
          \<and> (r < length (objects w) \<longrightarrow> state (objects (applyState i st w) ! r) = st))
   \<and> clusters (applyState i st w) = clusters w
   \<and> activeCluster (applyState i st w) = activeCluster w"
    by (auto simp: applyState_def setState_def split: option.splits)
  have objs: "\<forall>r < length (objects w).
         objects (load_stateSync msgs w) ! r
           = (if filter (\<lambda>(j, s). getById w j = Some r) msgs = [] then objects w ! r
              else setState (objects w ! r)
                     (snd (last (filter (\<lambda>(j, s). getById w j = Some r) msgs))))"
    using load_stateSync_object [of _ w msgs] by blast
  have nil: "load_stateSync [] w = w" by (simp add: load_stateSync_def)
  from single nil load_stateSync_snoc [of msgs i st w] load_stateSync_fields [of msgs w]
    objs known drop_all
  show ?thesis by (intro conjI) blast+
qed

theorem applyState_by_lookup_witness:
  "getById world1 ''zz'' = None \<and> applyState ''zz'' state_up world1 = world1
   \<and> getById world1 ''c1'' = Some 0 \<and> (0::nat) < length (objects world1)
   \<and> state (objects (applyState ''c1'' state_up world1) ! 0) = state_up
   \<and> state (objects (load_stateSync
         [(''c2'', state_up), (''zz'', state_up), (''c1'', state_up), (''c2'', initialState)]
         world1) ! 0) = state_up
   \<and> state (objects (load_stateSync
         [(''c2'', state_up), (''zz'', state_up), (''c1'', state_up), (''c2'', initialState)]
         world1) ! 1) = initialState
   \<and> list_all (\<lambda>(j, s). getById world1 j = None) [(''zz'', state_up), (''yy'', initialState)]
   \<and> load_stateSync [(''zz'', state_up), (''yy'', initialState)] world1 = world1"
  using applyState_by_lookup [of world1 "''zz''" state_up "[(''zz'', state_up), (''yy'', initialState)]"]
    applyState_by_lookup [of world1 "''c1''" state_up
      "[(''c2'', state_up), (''zz'', state_up), (''c1'', state_up), (''c2'', initialState)]"]
  by (simp add: getById_def world1_def world0_def setState_def load_stateSync_def applyState_def
      new_Cluster_def)

section \<open>Properties of removing\<close>

lemma catch_noop_unlink:
  "catch_noop (unlink env p d) d
     = Inr (if unlinkDenied env p then d else d(p := None))"
  by (auto simp: catch_noop_def unlink_def split: option.splits)

lemma removeById_unknown:
  "getById w i = None \<Longrightarrow> removeById env i w = Inr (emit ''cluster'' ''remove'' w)"
  by (simp add: removeById_def Let_def getById_def emit_def)

lemma removeById_known:
  "getById w i = Some r \<Longrightarrow>
   removeById env i w =
     Inr (w\<lparr>emitted := emitted w @ [(''cluster'', ''remove'')],
            clusters := AList.delete i (clusters w),
            activeCluster := (if activeCluster w = Some i then None else activeCluster w),
            disk := (if kubeConfigPath (objects w ! r) = getCustomKubeConfigPath env i
                        \<and> \<not> unlinkDenied env (getCustomKubeConfigPath env i)
                     then (disk w)(getCustomKubeConfigPath env i := None) else disk w)\<rparr>)"
  by (simp add: removeById_def Let_def getById_def emit_def setActive_def catch_noop_unlink)

lemma getById_addModel: "getById (addModel env m w) (cid m) = Some (length (objects w))"
  by (simp add: getById_def addModel_def addCluster_Model_simps AList.update_conv')

text \<open>
  Claim C10. For every identifier whose cluster is in the registry, \<^verbatim>\<open>removeById\<close> is
  fulfilled, never rejected: the entry is gone from the registry and the active identifier
  is reset if it was this one, whatever the file system does. When the unlink of the
  private configuration file fails, the failure is swallowed and the disk stays as it was.
\<close>

theorem removeById_swallows_unlink_error:
  "getById w i = Some r \<Longrightarrow>
   (\<exists>w'. removeById env i w = Inr w'
      \<and> getById w' i = None
      \<and> activeCluster w' = (if activeCluster w = Some i then None else activeCluster w)
      \<and> (\<forall>e. unlink env (kubeConfigPath (objects w ! r)) (disk w) = Inl e \<longrightarrow> disk w' = disk w))"
  by (auto simp: removeById_known getById_def AList.delete_conv' unlink_def split: option.splits if_splits)

theorem removeById_swallows_unlink_error_witness:
  "getById (addModel env_denied model_pasted world_pasted) ''p1'' = Some 0
   \<and> unlink env_denied ''/home/u/.config/Lens/kubeconfigs/p1''
        (disk (addModel env_denied model_pasted world_pasted)) = Inl EACCES
   \<and> (\<exists>w'. removeById env_denied ''p1'' (addModel env_denied model_pasted world_pasted) = Inr w'
         \<and> getById w' ''p1'' = None)"
  using removeById_swallows_unlink_error
     [of "addModel env_denied model_pasted world_pasted" "''p1''" 0 env_denied]
  by (simp add: getById_def addModel_def addCluster_Model_simps world_pasted_def world0_def
      model_pasted_def model_c1_def unlink_def catch_noop_def env_denied_def env0_def
      embedCustomKubeConfig_def removeById_def emit_def setActive_def new_Cluster_def
      getCustomKubeConfigPath_def path_resolve_def isAbsolute_def normalizeString_def
      saveToAppFiles_def Let_def)

text \<open>
  Claim C4, as stated, fails where the operating system refuses the unlink: a cluster with
  a private configuration file is added and removed at once; the registry no longer has
  the identifier, but the file is still on disk.
\<close>

theorem add_remove_keeps_file_when_unlink_refused:
  "kubeConfigPath model_pasted = getCustomKubeConfigPath env_denied (cid model_pasted)
   \<and> (case removeById env_denied (cid model_pasted) (addModel env_denied model_pasted world_pasted) of
         Inl e \<Rightarrow> False
       | Inr w' \<Rightarrow> getById w' (cid model_pasted) = None
           \<and> disk w' (getCustomKubeConfigPath env_denied (cid model_pasted))
               = Some \<lparr>contents = ''apiVersion: v1'', mode = 384\<rparr>)"
  by (simp add: getById_def addModel_def addCluster_Model_simps world_pasted_def world0_def
      model_pasted_def model_c1_def unlink_def catch_noop_def env_denied_def env0_def
      embedCustomKubeConfig_def removeById_def emit_def setActive_def new_Cluster_def
      getCustomKubeConfigPath_def path_resolve_def isAbsolute_def normalizeString_def
      saveToAppFiles_def Let_def)

text \<open>
  Claim C4, amended. \<^verbatim>\<open>removeById\<close> of an unknown identifier changes neither the registry
  nor the disk (it only emits the remove event). For a known identifier it deletes the
  entry and no other, resets the active identifier if it was this one, and, when the
  cluster's configuration path is the registry's private path for the identifier, removes
  that file from the disk unless the operating system refuses the unlink; then the file
  stays. Adding a model and removing it at once leaves the registry without the
  identifier, and without the private configuration file when the unlink is not refused.
\<close>

theorem removeById_effects:
  "(getById w i = None \<longrightarrow>
      (\<exists>w'. removeById env i w = Inr w' \<and> activeCluster w' = activeCluster w
          \<and> clusters w' = clusters w \<and> removedClusters w' = removedClusters w
          \<and> objects w' = objects w \<and> disk w' = disk w))
   \<and> (\<forall>r. getById w i = Some r \<longrightarrow>
      (\<exists>w'. removeById env i w = Inr w'
          \<and> clusters w' = AList.delete i (clusters w)
          \<and> getById w' i = None
          \<and> (\<forall>k. k \<noteq> i \<longrightarrow> getById w' k = getById w k)
          \<and> activeCluster w' = (if activeCluster w = Some i then None else activeCluster w)
          \<and> disk w' = (if kubeConfigPath (objects w ! r) = getCustomKubeConfigPath env i
                           \<and> \<not> unlinkDenied env (getCustomKubeConfigPath env i)
                        then (disk w)(getCustomKubeConfigPath env i := None) else disk w)))
   \<and> (\<exists>w'. removeById env (cid m) (addModel env m w) = Inr w'
          \<and> getById w' (cid m) = None
          \<and> (kubeConfigPath m = getCustomKubeConfigPath env (cid m)
               \<and> \<not> unlinkDenied env (getCustomKubeConfigPath env (cid m))
              \<longrightarrow> disk w' (getCustomKubeConfigPath env (cid m)) = None))"
proof -
  have unknown: "getById w i = None \<longrightarrow>
      (\<exists>w'. removeById env i w = Inr w' \<and> activeCluster w' = activeCluster w
          \<and> clusters w' = clusters w \<and> removedClusters w' = removedClusters w
          \<and> objects w' = objects w \<and> disk w' = disk w)"
    by (simp add: removeById_unknown emit_def)
  have known: "\<forall>r. getById w i = Some r \<longrightarrow>
      (\<exists>w'. removeById env i w = Inr w'
          \<and> clusters w' = AList.delete i (clusters w)
          \<and> getById w' i = None
          \<and> (\<forall>k. k \<noteq> i \<longrightarrow> getById w' k = getById w k)
          \<and> activeCluster w' = (if activeCluster w = Some i then None else activeCluster w)
          \<and> disk w' = (if kubeConfigPath (objects w ! r) = getCustomKubeConfigPath env i
                           \<and> \<not> unlinkDenied env (getCustomKubeConfigPath env i)
                        then (disk w)(getCustomKubeConfigPath env i := None) else disk w))"
    by (simp add: removeById_known getById_def AList.delete_conv')
  have kp: "kubeConfigPath (objects (addModel env m w) ! length (objects w)) = kubeConfigPath m"
    by (simp add: addModel_def addCluster_Model_simps new_Cluster_def)
  have add_remove: "\<exists>w'. removeById env (cid m) (addModel env m w) = Inr w'
          \<and> getById w' (cid m) = None
          \<and> (kubeConfigPath m = getCustomKubeConfigPath env (cid m)
               \<and> \<not> unlinkDenied env (getCustomKubeConfigPath env (cid m))
              \<longrightarrow> disk w' (getCustomKubeConfigPath env (cid m)) = None)"
    by (simp add: removeById_known [OF getById_addModel] kp getById_def AList.delete_conv')
  from unknown known add_remove show ?thesis by blast
qed

theorem removeById_effects_witness:
  "getById world1 ''zz'' = None
   \<and> (\<exists>w'. removeById env0 ''zz'' world1 = Inr w' \<and> clusters w' = clusters world1)
   \<and> getById (setActive (Some ''c1'') world1) ''c1'' = Some 0
   \<and> (\<exists>w'. removeById env0 ''c1'' (setActive (Some ''c1'') world1) = Inr w'
         \<and> clusters w' = [(''c2'', 1)] \<and> activeCluster w' = None)
   \<and> kubeConfigPath model_pasted = getCustomKubeConfigPath env0 (cid model_pasted)
   \<and> \<not> unlinkDenied env0 (getCustomKubeConfigPath env0 (cid model_pasted))
   \<and> disk world_pasted (getCustomKubeConfigPath env0 (cid model_pasted)) \<noteq> None
   \<and> (\<exists>w'. removeById env0 (cid model_pasted) (addModel env0 model_pasted world_pasted) = Inr w'
         \<and> getById w' (cid model_pasted) = None
         \<and> disk w' (getCustomKubeConfigPath env0 (cid model_pasted)) = None)"
  using removeById_effects [of world1 "''zz''" env0 model_pasted]
    removeById_effects [of "setActive (Some ''c1'') world1" "''c1''" env0 model_pasted]
    removeById_effects [of world_pasted "''zz''" env0 model_pasted]
  by (simp add: world1_def getById_def addModel_def addCluster_Model_simps world_pasted_def world0_def
      model_pasted_def model_c1_def unlink_def catch_noop_def env_denied_def env0_def
      embedCustomKubeConfig_def removeById_def emit_def setActive_def new_Cluster_def
      getCustomKubeConfigPath_def path_resolve_def isAbsolute_def normalizeString_def
      saveToAppFiles_def Let_def)

section \<open>Properties of the private configuration files\<close>

lemma split_path_not_Nil: "split_path p \<noteq> []"
  by (induction p) (auto split: list.splits)

lemma split_path_append:
  "split_path (a @ CHR ''/'' # b) = split_path a @ split_path b"
  by (induction a) (auto simp: split_path_not_Nil split: list.splits)

lemma split_path_no_slash: "CHR ''/'' \<notin> set s \<Longrightarrow> split_path s = [s]"
  by (induction s) auto

lemma split_path_slash_free: "s \<in> set (split_path p) \<Longrightarrow> CHR ''/'' \<notin> set s"
proof (induction p arbitrary: s)
  case Nil
  then show ?case by simp
next
  case (Cons c p)
  show ?case
  proof (cases "c = CHR ''/''")
    case True
    with Cons show ?thesis by auto
  next
    case False
    obtain t ts where sp: "split_path p = t # ts"
      using split_path_not_Nil [of p] by (cases "split_path p") auto
    with Cons.prems False have "s = c # t \<or> s \<in> set ts" by simp
    with Cons.IH sp False show ?thesis by auto
  qed
qed

lemma split_join_path:
  "segs \<noteq> [] \<Longrightarrow> \<forall>s \<in> set segs. CHR ''/'' \<notin> set s \<Longrightarrow> split_path (join_path segs) = segs"
proof (induction segs rule: join_path.induct)
  case 1
  then show ?case by simp
next
  case (2 s)
  then show ?case by (simp add: split_path_no_slash)
next
  case (3 s t ss)
  then show ?case by (simp add: split_path_append split_path_no_slash)
qed

lemma normalize_segments_append:
  "normalize_segments a (xs @ ys) res = normalize_segments a ys (rev (normalize_segments a xs res))"
  by (induction xs arbitrary: res) (auto split: list.splits)

lemma normalize_segments_plain:
  "\<forall>s \<in> set xs. plain_segment s \<Longrightarrow> normalize_segments a xs res = rev res @ xs"
proof (induction xs arbitrary: res)
  case Nil
  show ?case by simp
next
  case (Cons x xs)
  then have x: "x \<noteq> []" "x \<noteq> ''.''" "x \<noteq> ''..''" and rest: "\<forall>s \<in> set xs. plain_segment s"
    by (simp_all add: plain_segment_def)
  from x have "normalize_segments a (x # xs) res = normalize_segments a xs (x # res)"
    by simp
  also have "\<dots> = rev (x # res) @ xs" using rest by (rule Cons.IH)
  finally show ?case by simp
qed

lemma normalize_segments_yields_plain:
  "\<forall>s \<in> set xs. CHR ''/'' \<notin> set s \<Longrightarrow> \<forall>s \<in> set res. plain_segment s \<Longrightarrow>
   \<forall>s \<in> set (normalize_segments False xs res). plain_segment s"
proof (induction xs arbitrary: res)
  case Nil
  then show ?case by simp
next
  case (Cons x xs)
  show ?case
  proof (cases "x = [] \<or> x = ''.''")
    case True
    with Cons show ?thesis by simp
  next
    case False
    show ?thesis
    proof (cases "x = ''..''")
      case True
      show ?thesis
      proof (cases res)
        case Nil
        with Cons.IH [of "[]"] Cons.prems True show ?thesis by simp
      next
        case (Cons t ts)
        with Cons.prems(2) have t: "t \<noteq> ''..''" and ts: "\<forall>s \<in> set ts. plain_segment s"
          by (auto simp: plain_segment_def)
        have "\<forall>s \<in> set (normalize_segments False xs ts). plain_segment s"
          using Cons.prems(1) ts by (intro Cons.IH) auto
        with Cons t True show ?thesis by simp
      qed
    next
      case nd: False
      with False Cons.prems have "\<forall>s \<in> set (x # res). plain_segment s"
        by (auto simp: plain_segment_def)
      with Cons.IH [of "x # res"] Cons.prems False nd show ?thesis by simp
    qed
  qed
qed

lemma path_segments_plain: "\<forall>s \<in> set (path_segments p). plain_segment s"
  unfolding path_segments_def
  by (rule normalize_segments_yields_plain) (auto dest: split_path_slash_free)

lemma path_segments_of_joined:
  assumes "\<forall>s \<in> set segs. plain_segment s"
  shows "path_segments (''/'' @ join_path segs) = segs"
proof (cases "segs = []")
  case True
  then show ?thesis by (simp add: path_segments_def)
next
  case False
  from assms have "\<forall>s \<in> set segs. CHR ''/'' \<notin> set s" by (simp add: plain_segment_def)
  with False have "split_path (join_path segs) = segs" by (rule split_join_path)
  then have "path_segments (''/'' @ join_path segs) = normalize_segments False segs []"
    by (simp add: path_segments_def)
  with assms show ?thesis by (simp add: normalize_segments_plain)
qed

lemma getCustomKubeConfigPath_plain:
  assumes "isAbsolute (userData env)" and "plain_segment i"
  shows "getCustomKubeConfigPath env i
    = ''/'' @ join_path (path_segments (userData env) @ [''kubeconfigs'', i])"
proof -
  from assms(1) have ne: "userData env \<noteq> []" by (auto simp: isAbsolute_def)
  from assms(2) have i: "i \<noteq> []" "\<not> isAbsolute i" "CHR ''/'' \<notin> set i" "i \<noteq> ''.''" "i \<noteq> ''..''"
    by (auto simp: plain_segment_def isAbsolute_def split: list.splits)
  have pre: "prepend_until_absolute (rev [userData env, ''kubeconfigs'', i] @ [cwd env]) []
     = (userData env @ CHR ''/'' # (''kubeconfigs'' @ CHR ''/'' # (i @ CHR ''/'' # [])), True)"
    using ne i assms(1) by (simp add: isAbsolute_def)
  have sp: "split_path (userData env @ CHR ''/'' # (''kubeconfigs'' @ CHR ''/'' # (i @ CHR ''/'' # [])))
     = split_path (userData env) @ [''kubeconfigs'', i, []]"
    using i(3) by (simp only: split_path_append) (simp add: split_path_no_slash)
  have "normalize_segments False (split_path (userData env) @ [''kubeconfigs'', i, []]) []
     = path_segments (userData env) @ [''kubeconfigs'', i]"
    using i by (simp add: normalize_segments_append path_segments_def)
  with pre sp show ?thesis
    by (simp add: getCustomKubeConfigPath_def path_resolve_def normalizeString_def)
qed

lemma path_segments_getCustomKubeConfigPath:
  assumes "isAbsolute (userData env)" and "plain_segment i"
  shows "path_segments (getCustomKubeConfigPath env i)
    = path_segments (userData env) @ [''kubeconfigs'', i]"
proof -
  have "\<forall>s \<in> set (path_segments (userData env) @ [''kubeconfigs'', i]). plain_segment s"
    using path_segments_plain [of "userData env"] assms(2) by (auto simp: plain_segment_def)
  then show ?thesis
    by (simp only: getCustomKubeConfigPath_plain [OF assms] path_segments_of_joined)
qed

text \<open>
  Claim C8, amended. Let the application's data directory be an absolute path, and the
  cluster identifier a single plain path segment: not empty, without a slash, and neither
  \<^verbatim>\<open>.\<close> nor \<^verbatim>\<open>..\<close>. Then embedding an inline text returns the private path of the
  identifier, which is the data directory followed by \<^verbatim>\<open>kubeconfigs\<close> and the identifier
  and so lies under the data directory; afterwards the file at that path holds the text
  with mode \<^verbatim>\<open>0o600\<close>, and no other file has changed.
\<close>

theorem embedCustomKubeConfig_private_file:
  assumes "isAbsolute (userData env)" and "plain_segment i"
  shows "fst (embedCustomKubeConfig env dump i (InlineText t) d) = getCustomKubeConfigPath env i
   \<and> getCustomKubeConfigPath env i
       = ''/'' @ join_path (path_segments (userData env) @ [''kubeconfigs'', i])
   \<and> path_segments (getCustomKubeConfigPath env i)
       = path_segments (userData env) @ [''kubeconfigs'', i]
   \<and> under_dir (userData env) (getCustomKubeConfigPath env i)
   \<and> snd (embedCustomKubeConfig env dump i (InlineText t) d) (getCustomKubeConfigPath env i)
       = Some \<lparr>contents = t, mode = 6 * 8 * 8\<rparr>
   \<and> (\<forall>p. p \<noteq> getCustomKubeConfigPath env i \<longrightarrow>
         snd (embedCustomKubeConfig env dump i (InlineText t) d) p = d p)"
  using getCustomKubeConfigPath_plain [OF assms] path_segments_getCustomKubeConfigPath [OF assms]
  by (simp add: embedCustomKubeConfig_def saveToAppFiles_def Let_def under_dir_def)

theorem embedCustomKubeConfig_private_file_witness:
  "isAbsolute (userData env0) \<and> plain_segment ''p1''
   \<and> fst (embedCustomKubeConfig env0 (\<lambda>k::unit. []) ''p1'' (InlineText ''apiVersion: v1'') (\<lambda>p. None))
       = ''/home/u/.config/Lens/kubeconfigs/p1''
   \<and> under_dir ''/home/u/.config/Lens'' ''/home/u/.config/Lens/kubeconfigs/p1''
   \<and> snd (embedCustomKubeConfig env0 (\<lambda>k::unit. []) ''p1'' (InlineText ''apiVersion: v1'') (\<lambda>p. None))
         ''/home/u/.config/Lens/kubeconfigs/p1'' = Some \<lparr>contents = ''apiVersion: v1'', mode = 384\<rparr>"
  using embedCustomKubeConfig_private_file [of env0 "''p1''" "\<lambda>k::unit. []" "''apiVersion: v1''" "\<lambda>p. None"]
  by (simp add: env0_def isAbsolute_def plain_segment_def path_segments_def under_dir_def
      embedCustomKubeConfig_def getCustomKubeConfigPath_def path_resolve_def
      normalizeString_def saveToAppFiles_def Let_def)

text \<open>
  Claim C8, as stated for every identifier, fails: the identifier is resolved as a path
  against the \<^verbatim>\<open>kubeconfigs\<close> directory, so \<^verbatim>\<open>../../x\<close> names a file outside the
  application's data directory, and the text is written there.
\<close>

theorem embedCustomKubeConfig_escapes_data_directory:
  "fst (embedCustomKubeConfig env0 (\<lambda>k::unit. []) ''../../x'' (InlineText ''apiVersion: v1'') (\<lambda>p. None))
       = ''/home/u/.config/x''
   \<and> \<not> under_dir (userData env0) ''/home/u/.config/x''
   \<and> snd (embedCustomKubeConfig env0 (\<lambda>k::unit. []) ''../../x'' (InlineText ''apiVersion: v1'') (\<lambda>p. None))
         ''/home/u/.config/x'' = Some \<lparr>contents = ''apiVersion: v1'', mode = 384\<rparr>"
  by (simp add: embedCustomKubeConfig_def getCustomKubeConfigPath_def path_resolve_def
      isAbsolute_def normalizeString_def env0_def saveToAppFiles_def Let_def under_dir_def
      path_segments_def)

section \<open>Properties of the reload\<close>

lemma updateModel_keeps:
  "enabled (updateModel c m) = enabled c" "apiUrl (updateModel c m) = apiUrl c"
  "state (updateModel c m) = state c" "cid (updateModel c m) = cid m"
  "Cluster_toJSON (updateModel c m) = m"
  by (simp_all add: updateModel_def Cluster_toJSON_def)

lemma updateModel_toJSON: "updateModel c (Cluster_toJSON c) = c"
  by (simp add: updateModel_def Cluster_toJSON_def)

lemma fromStore_step_cases:
  "map_of cur (cid m) = Some r \<Longrightarrow>
     fromStore_step env cur (h, new) m = (h[r := updateModel (h ! r) m], AList.update (cid m) r new)"
  "map_of cur (cid m) = None \<Longrightarrow>
     fromStore_step env cur (h, new) m
       = (h @ [fromStore_new env m], AList.update (cid m) (length h) new)"
  by (simp_all add: fromStore_step_def Let_def)

lemma fromStore_loop_length:
  "length h \<le> length (fst (foldl (fromStore_step env cur) (h, new) ms))"
proof (induction ms arbitrary: h new)
  case Nil
  show ?case by simp
next
  case (Cons m ms)
  show ?case
  proof (cases "map_of cur (cid m)")
    case None
    then have "fromStore_step env cur (h, new) m
        = (h @ [fromStore_new env m], AList.update (cid m) (length h) new)"
      by (rule fromStore_step_cases(2))
    with Cons.IH [of "h @ [fromStore_new env m]" "AList.update (cid m) (length h) new"] show ?thesis by simp
  next
    case (Some r)
    with Cons.IH [of "h[r := updateModel (h ! r) m]" "AList.update (cid m) r new"] show ?thesis
      by (simp add: fromStore_step_cases(1))
  qed
qed

text \<open>Objects held before the loop keep everything that is not a persisted attribute.\<close>

lemma fromStore_loop_keeps:
  "r < length h \<Longrightarrow>
   enabled (fst (foldl (fromStore_step env cur) (h, new) ms) ! r) = enabled (h ! r)
   \<and> apiUrl (fst (foldl (fromStore_step env cur) (h, new) ms) ! r) = apiUrl (h ! r)
   \<and> state (fst (foldl (fromStore_step env cur) (h, new) ms) ! r) = state (h ! r)"
proof (induction ms arbitrary: h new)
  case Nil
  show ?case by simp
next
  case (Cons m ms)
  show ?case
  proof (cases "map_of cur (cid m)")
    case None
    then have "fromStore_step env cur (h, new) m
        = (h @ [fromStore_new env m], AList.update (cid m) (length h) new)"
      by (rule fromStore_step_cases(2))
    with Cons.IH [of "h @ [fromStore_new env m]" "AList.update (cid m) (length h) new"] Cons.prems show ?thesis
      by (simp add: nth_append)
  next
    case (Some r')
    with Cons.IH [of "h[r' := updateModel (h ! r') m]" "AList.update (cid m) r' new"] Cons.prems
    show ?thesis
      by (cases "r' = r") (simp_all add: fromStore_step_cases(1) updateModel_keeps)
  qed
qed

text \<open>The persisted attributes of an object held before the loop.\<close>

lemma fromStore_loop_model:
  assumes "r < length h" and "map_of cur k = Some r"
    and "\<forall>m \<in> set ms. map_of cur (cid m) = Some r \<longrightarrow> cid m = k"
  shows "if filter (\<lambda>m. cid m = k) ms = []
         then fst (foldl (fromStore_step env cur) (h, new) ms) ! r = h ! r
         else Cluster_toJSON (fst (foldl (fromStore_step env cur) (h, new) ms) ! r)
                = last (filter (\<lambda>m. cid m = k) ms)"
  using assms(3)
proof (induction ms rule: rev_induct)
  case Nil
  show ?case by simp
next
  case (snoc m ms)
  obtain h1 new1 where run: "foldl (fromStore_step env cur) (h, new) ms = (h1, new1)"
    by (cases "foldl (fromStore_step env cur) (h, new) ms")
  have len: "r < length h1"
    using fromStore_loop_length [of h env cur new ms] assms(1) run by simp
  have IH: "if filter (\<lambda>m. cid m = k) ms = [] then h1 ! r = h ! r
      else Cluster_toJSON (h1 ! r) = last (filter (\<lambda>m. cid m = k) ms)"
    using snoc.IH snoc.prems run by (simp split: if_splits)
  show ?case
  proof (cases "cid m = k")
    case True
    with assms(2) len show ?thesis
      by (simp add: run fromStore_step_cases(1) updateModel_keeps)
  next
    case False
    with snoc.prems have other: "map_of cur (cid m) \<noteq> Some r" by auto
    have "fst (fromStore_step env cur (h1, new1) m) ! r = h1 ! r"
    proof (cases "map_of cur (cid m)")
      case None
      then have "fromStore_step env cur (h1, new1) m
          = (h1 @ [fromStore_new env m], AList.update (cid m) (length h1) new1)"
        by (rule fromStore_step_cases(2))
      with len show ?thesis by (simp add: nth_append)
    next
      case (Some r')
      with other have "r' \<noteq> r" by simp
      with Some show ?thesis by (simp add: fromStore_step_cases(1))
    qed
    with IH False show ?thesis by (simp add: run)
  qed
qed

text \<open>The new map.\<close>

lemma fromStore_loop_map:
  "map_of (snd (foldl (fromStore_step env cur) (h, new) ms)) k =
     (if k \<in> cid ` set ms
      then (case map_of cur k of Some r \<Rightarrow> Some r
            | None \<Rightarrow> map_of (snd (foldl (fromStore_step env cur) (h, new) ms)) k)
      else map_of new k)"
proof (induction ms arbitrary: h new)
  case Nil
  show ?case by simp
next
  case (Cons m ms)
  obtain h1 new1 where st: "fromStore_step env cur (h, new) m = (h1, new1)"
    by (cases "fromStore_step env cur (h, new) m")
  have new1: "map_of new1 k = (if k = cid m then (case map_of cur k of Some r \<Rightarrow> Some r
        | None \<Rightarrow> map_of new1 k) else map_of new k)"
    using st by (auto simp: fromStore_step_def Let_def AList.update_conv' split: option.splits)
  from Cons.IH [of h1 new1] new1 show ?case
    by (auto simp: st split: option.splits)
qed

lemma fromStore_loop_keys:
  "fst ` set (snd (foldl (fromStore_step env cur) (h, new) ms)) = fst ` set new \<union> cid ` set ms"
proof (induction ms arbitrary: h new)
  case Nil
  show ?case by simp
next
  case (Cons m ms)
  obtain h1 new1 where st: "fromStore_step env cur (h, new) m = (h1, new1)"
    by (cases "fromStore_step env cur (h, new) m")
  have "fst ` set (snd (fromStore_step env cur (h, new) m)) = insert (cid m) (fst ` set new)"
    by (simp add: fromStore_step_def Let_def AList.dom_update split: option.splits)
  then have "fst ` set new1 = insert (cid m) (fst ` set new)" by (simp add: st)
  with Cons.IH [of h1 new1] show ?case by (simp add: st)
qed

lemma update_fresh_key: "k \<notin> fst ` set al \<Longrightarrow> AList.update k v al = al @ [(k, v)]"
  by (induction al) auto

text \<open>The loop that collects the removed clusters.\<close>

lemma fromStore_removed_loop:
  assumes "distinct (map fst cur)" and "fst ` set acc \<inter> fst ` set cur = {}"
    and "\<forall>(k, r) \<in> set cur. cid (objs ! r) = k"
  shows "foldl (fromStore_removed_step objs new) acc cur
    = acc @ filter (\<lambda>(k, r). map_of new k = None) cur"
  using assms
proof (induction cur arbitrary: acc)
  case Nil
  show ?case by simp
next
  case (Cons e cur)
  obtain k r where e: "e = (k, r)" by (cases e)
  from Cons.prems e have k: "cid (objs ! r) = k" and fresh: "k \<notin> fst ` set acc"
    and d: "distinct (map fst cur)" and knot: "k \<notin> fst ` set cur"
    and rest: "\<forall>(k, r) \<in> set cur. cid (objs ! r) = k"
    by auto
  show ?case
  proof (cases "map_of new k")
    case None
    have step: "fromStore_removed_step objs new acc e = acc @ [(k, r)]"
      using None k fresh by (simp add: fromStore_removed_step_def e update_fresh_key)
    have "fst ` set (acc @ [(k, r)]) \<inter> fst ` set cur = {}"
      using Cons.prems(2) knot by auto
    from Cons.IH [OF d this rest] step None show ?thesis by (simp add: e)
  next
    case (Some r')
    have step: "fromStore_removed_step objs new acc e = acc"
      using Some k by (simp add: fromStore_removed_step_def e)
    have "fst ` set acc \<inter> fst ` set cur = {}" using Cons.prems(2) by auto
    from Cons.IH [OF d this rest] step Some show ?thesis by (simp add: e)
  qed
qed

lemma store_ok_entry:
  assumes "store_ok w" and "(k, r) \<in> set (clusters w)"
  shows "r < length (objects w)" and "cid (objects w ! r) = k" and "map_of (clusters w) k = Some r"
  using assms by (auto simp: store_ok_def refs_ok_def keys_ok_def list_all_iff)

lemma store_ok_lookup:
  assumes "store_ok w" and "map_of (clusters w) k = Some r"
  shows "r < length (objects w)" and "cid (objects w ! r) = k"
  using assms store_ok_entry [of w k r] by (auto dest: map_of_SomeD)

lemma cid_toJSON: "cid (Cluster_toJSON c) = cid c"
  by (simp add: Cluster_toJSON_def)

text \<open>The objects of the clusters held before, after the loop.\<close>

lemma fromStore_loop_entry:
  assumes ok: "store_ok w" and e: "(k, r) \<in> set (clusters w)"
  shows "if k \<in> cid ` set ms
         then Cluster_toJSON (fst (foldl (fromStore_step env (clusters w)) (objects w, new) ms) ! r)
                = last (filter (\<lambda>m. cid m = k) ms)
         else fst (foldl (fromStore_step env (clusters w)) (objects w, new) ms) ! r = objects w ! r"
    and "cid (fst (foldl (fromStore_step env (clusters w)) (objects w, new) ms) ! r) = k"
proof -
  let ?h' = "fst (foldl (fromStore_step env (clusters w)) (objects w, new) ms)"
  note ent = store_ok_entry [OF ok e]
  have only: "\<forall>m \<in> set ms. map_of (clusters w) (cid m) = Some r \<longrightarrow> cid m = k"
    using store_ok_lookup(2) [OF ok] ent(2) by auto
  have model: "if filter (\<lambda>m. cid m = k) ms = [] then ?h' ! r = objects w ! r
      else Cluster_toJSON (?h' ! r) = last (filter (\<lambda>m. cid m = k) ms)"
    using ent(1) ent(3) only by (rule fromStore_loop_model)
  have iff: "filter (\<lambda>m. cid m = k) ms = [] \<longleftrightarrow> k \<notin> cid ` set ms"
    by (auto simp: filter_empty_conv)
  from model iff show first: "if k \<in> cid ` set ms
         then Cluster_toJSON (?h' ! r) = last (filter (\<lambda>m. cid m = k) ms)
         else ?h' ! r = objects w ! r"
    by (auto split: if_splits)
  show "cid (?h' ! r) = k"
  proof (cases "k \<in> cid ` set ms")
    case True
    then have ne: "filter (\<lambda>m. cid m = k) ms \<noteq> []" using iff by simp
    then have "last (filter (\<lambda>m. cid m = k) ms) \<in> set (filter (\<lambda>m. cid m = k) ms)"
      by (rule last_in_set)
    then have "cid (last (filter (\<lambda>m. cid m = k) ms)) = k" by simp
    with first True have "cid (Cluster_toJSON (?h' ! r)) = k" by simp
    then show ?thesis by (simp add: cid_toJSON)
  next
    case False
    with first ent(2) show ?thesis by simp
  qed
qed

lemma fromStore_fields:
  "clusters (fromStore env snap w)
     = snd (foldl (fromStore_step env (clusters w)) (objects w, []) (snap_models snap))"
  "objects (fromStore env snap w)
     = fst (foldl (fromStore_step env (clusters w)) (objects w, []) (snap_models snap))"
  "removedClusters (fromStore env snap w)
     = foldl (fromStore_removed_step (objects (fromStore env snap w)) (clusters (fromStore env snap w)))
         [] (clusters w)"
  "activeCluster (fromStore env snap w)
     = (case snap_activeCluster snap of None \<Rightarrow> None
        | Some a \<Rightarrow> (case getById (fromStore env snap w) a of None \<Rightarrow> None
            | Some r \<Rightarrow> if enabled (objects (fromStore env snap w) ! r) then Some a else None))"
  "disk (fromStore env snap w) = disk w"
  "emitted (fromStore env snap w) = emitted w"
  by (simp_all add: fromStore_def Let_def getById_def cong: option.case_cong if_cong)

lemma fromStore_active_ok: "active_ok (fromStore env snap w)"
  by (simp add: active_ok_def fromStore_fields(4) getById_def split: option.splits)

lemma fromStore_clusters_None:
  "map_of (clusters (fromStore env snap w)) k = None \<longleftrightarrow> k \<notin> cid ` set (snap_models snap)"
  using fromStore_loop_keys [of env "clusters w" "objects w" "[]" "snap_models snap"]
  by (simp add: fromStore_fields(1) map_of_eq_None_iff)

lemma fromStore_removed:
  assumes "store_ok w"
  shows "removedClusters (fromStore env snap w)
    = filter (\<lambda>(k, r). k \<notin> cid ` set (snap_models snap)) (clusters w)"
proof -
  have d: "distinct (map fst (clusters w))" using assms by (simp add: store_ok_def)
  have keys: "\<forall>(k, r) \<in> set (clusters w). cid (objects (fromStore env snap w) ! r) = k"
    using fromStore_loop_entry(2) [OF assms] by (auto simp: fromStore_fields(2))
  have "removedClusters (fromStore env snap w)
      = [] @ filter (\<lambda>(k, r). map_of (clusters (fromStore env snap w)) k = None) (clusters w)"
    by (subst fromStore_fields(3)) (rule fromStore_removed_loop [OF d _ keys], simp)
  then show ?thesis by (simp add: fromStore_clusters_None)
qed

text \<open>
  Claim C6. Let the registry be well formed: distinct keys, every reference allocated,
  every cluster filed under its own identifier. After \<^verbatim>\<open>fromStore\<close> of a snapshot,
  the removed set holds exactly the clusters that were in memory and whose identifier is
  not in the snapshot, in their order and as the same untouched objects, and they are no
  longer in the registry. Every cluster that was in memory and is in the snapshot is in
  the registry under the same reference (the same object), with the persisted attributes
  of the last snapshot record of that identifier and with its enabled flag, API URL and
  connection state as before. The registry's identifiers are the snapshot's. The active
  identifier is the snapshot's if that resolves to an enabled cluster of the new registry,
  and none otherwise.
\<close>

theorem fromStore_reconciles:
  assumes "store_ok w"
  shows "removedClusters (fromStore env snap w)
       = filter (\<lambda>(k, r). k \<notin> cid ` set (snap_models snap)) (clusters w)
   \<and> (\<forall>(k, r) \<in> set (clusters w). k \<notin> cid ` set (snap_models snap) \<longrightarrow>
         map_of (removedClusters (fromStore env snap w)) k = Some r
         \<and> getById (fromStore env snap w) k = None
         \<and> objects (fromStore env snap w) ! r = objects w ! r)
   \<and> (\<forall>(k, r) \<in> set (clusters w). k \<in> cid ` set (snap_models snap) \<longrightarrow>
         getById (fromStore env snap w) k = Some r
         \<and> map_of (removedClusters (fromStore env snap w)) k = None
         \<and> Cluster_toJSON (objects (fromStore env snap w) ! r)
             = last (filter (\<lambda>m. cid m = k) (snap_models snap))
         \<and> enabled (objects (fromStore env snap w) ! r) = enabled (objects w ! r)
         \<and> apiUrl (objects (fromStore env snap w) ! r) = apiUrl (objects w ! r)
         \<and> state (objects (fromStore env snap w) ! r) = state (objects w ! r))
   \<and> fst ` set (clusters (fromStore env snap w)) = cid ` set (snap_models snap)
   \<and> activeCluster (fromStore env snap w)
       = (case snap_activeCluster snap of None \<Rightarrow> None
          | Some a \<Rightarrow> (case getById (fromStore env snap w) a of None \<Rightarrow> None
              | Some r \<Rightarrow> if enabled (objects (fromStore env snap w) ! r) then Some a else None))
   \<and> active_ok (fromStore env snap w)"
proof -
  let ?w' = "fromStore env snap w" and ?ms = "snap_models snap"
  have d: "distinct (map fst (clusters w))" using assms by (simp add: store_ok_def)
  have rem: "removedClusters ?w' = filter (\<lambda>(k, r). k \<notin> cid ` set ?ms) (clusters w)"
    using assms by (rule fromStore_removed)
  have drem: "distinct (map fst (removedClusters ?w'))"
    using d by (simp add: rem distinct_map_filter)
  have gone: "map_of (removedClusters ?w') k = Some r \<and> getById ?w' k = None
         \<and> objects ?w' ! r = objects w ! r"
    if e: "(k, r) \<in> set (clusters w)" and k: "k \<notin> cid ` set ?ms" for k r
  proof (intro conjI)
    from e k have "(k, r) \<in> set (removedClusters ?w')" by (simp add: rem)
    with drem show "map_of (removedClusters ?w') k = Some r" by (rule map_of_is_SomeI)
    from k show "getById ?w' k = None" by (simp add: getById_def fromStore_clusters_None)
    from fromStore_loop_entry(1) [OF assms e, of ?ms env "[]"] k
    show "objects ?w' ! r = objects w ! r" by (simp add: fromStore_fields(2))
  qed
  have kept: "getById ?w' k = Some r
         \<and> map_of (removedClusters ?w') k = None
         \<and> Cluster_toJSON (objects ?w' ! r) = last (filter (\<lambda>m. cid m = k) ?ms)
         \<and> enabled (objects ?w' ! r) = enabled (objects w ! r)
         \<and> apiUrl (objects ?w' ! r) = apiUrl (objects w ! r)
         \<and> state (objects ?w' ! r) = state (objects w ! r)"
    if e: "(k, r) \<in> set (clusters w)" and k: "k \<in> cid ` set ?ms" for k r
  proof (intro conjI)
    note ent = store_ok_entry [OF assms e]
    from fromStore_loop_map [of env "clusters w" "objects w" "[]" ?ms k] k ent(3)
    show "getById ?w' k = Some r" by (simp add: getById_def fromStore_fields(1))
    from k have "k \<notin> fst ` set (removedClusters ?w')" by (auto simp: rem)
    then show "map_of (removedClusters ?w') k = None" by (simp add: map_of_eq_None_iff)
    from fromStore_loop_entry(1) [OF assms e, of ?ms env "[]"] k
    show "Cluster_toJSON (objects ?w' ! r) = last (filter (\<lambda>m. cid m = k) ?ms)"
      by (simp add: fromStore_fields(2))
    from fromStore_loop_keeps [OF ent(1), of env "clusters w" "[]" ?ms]
    show "enabled (objects ?w' ! r) = enabled (objects w ! r)"
      and "apiUrl (objects ?w' ! r) = apiUrl (objects w ! r)"
      and "state (objects ?w' ! r) = state (objects w ! r)"
      by (simp_all add: fromStore_fields(2))
  qed
  have keys: "fst ` set (clusters ?w') = cid ` set ?ms"
    using fromStore_loop_keys [of env "clusters w" "objects w" "[]" ?ms]
    by (simp add: fromStore_fields(1))
  have gone_all: "\<forall>(k, r) \<in> set (clusters w). k \<notin> cid ` set ?ms \<longrightarrow>
         map_of (removedClusters ?w') k = Some r \<and> getById ?w' k = None
         \<and> objects ?w' ! r = objects w ! r"
    using gone by fast
  have kept_all: "\<forall>(k, r) \<in> set (clusters w). k \<in> cid ` set ?ms \<longrightarrow>
         getById ?w' k = Some r
         \<and> map_of (removedClusters ?w') k = None
         \<and> Cluster_toJSON (objects ?w' ! r) = last (filter (\<lambda>m. cid m = k) ?ms)
         \<and> enabled (objects ?w' ! r) = enabled (objects w ! r)
         \<and> apiUrl (objects ?w' ! r) = apiUrl (objects w ! r)
         \<and> state (objects ?w' ! r) = state (objects w ! r)"
    using kept by fast
  from rem gone_all kept_all keys fromStore_fields(4) [of env snap w]
    fromStore_active_ok [of env snap w]
  show ?thesis by (intro conjI)
qed

theorem fromStore_reconciles_witness:
  "store_ok world1
   \<and> clusters world1 = [(''c1'', 0), (''c2'', 1)]
   \<and> removedClusters (fromStore env0 snapshot23 world1) = [(''c1'', 0)]
   \<and> clusters (fromStore env0 snapshot23 world1) = [(''c2'', 1), (''c3'', 2)]
   \<and> contextName (objects (fromStore env0 snapshot23 world1) ! 1) = Some ''staging''
   \<and> state (objects (fromStore env0 snapshot23 world1) ! 1) = state (objects world1 ! 1)
   \<and> activeCluster (fromStore env0 snapshot23 world1) = Some ''c3''
   \<and> activeCluster (fromStore env0 (snapshot23\<lparr>snap_activeCluster := Some ''c2''\<rparr>) world1) = None"
  using fromStore_reconciles [of world1 env0 snapshot23]
    fromStore_reconciles [of world1 env0 "snapshot23\<lparr>snap_activeCluster := Some ''c2''\<rparr>"]
  by (simp add: store_ok_def refs_ok_def keys_ok_def world1_def world0_def env0_def
      snapshot23_def model_c2b_def model_c3_def model_c1_def new_Cluster_def
      fromStore_def fromStore_step_def fromStore_new_def fromStore_removed_step_def
      snap_models_def updateModel_def isManaged_def truthy_def Let_def)

section \<open>Serialising and reloading\<close>

lemma snap_models_toJSON:
  "snap_models (toJSON w) = map (\<lambda>(k, r). Cluster_toJSON (objects w ! r)) (clusters w)"
  by (simp add: snap_models_def toJSON_def clustersList_def case_prod_unfold)

lemma fromStore_loop_roundtrip:
  assumes "store_ok w" and "clusters w = pre @ suf"
  shows "foldl (fromStore_step env (clusters w)) (objects w, pre)
           (map (\<lambda>(k, r). Cluster_toJSON (objects w ! r)) suf) = (objects w, pre @ suf)"
  using assms(2)
proof (induction suf arbitrary: pre)
  case Nil
  show ?case by simp
next
  case (Cons e suf)
  obtain k r where e: "e = (k, r)" by (cases e)
  have mem: "(k, r) \<in> set (clusters w)" using Cons.prems e by simp
  note ent = store_ok_entry [OF assms(1) mem]
  have "distinct (map fst (clusters w))" using assms(1) by (simp add: store_ok_def)
  then have fresh: "k \<notin> fst ` set pre" using Cons.prems e by auto
  have "fromStore_step env (clusters w) (objects w, pre) (Cluster_toJSON (objects w ! r))
      = (objects w, pre @ [(k, r)])"
    using ent fresh
    by (simp add: fromStore_step_cases(1) cid_toJSON updateModel_toJSON update_fresh_key)
  moreover have "clusters w = (pre @ [(k, r)]) @ suf" using Cons.prems e by simp
  ultimately show ?case using Cons.IH [of "pre @ [(k, r)]"] by (simp add: e)
qed

lemma fromStore_loop_fresh:
  "distinct (map cid ms) \<Longrightarrow> cid ` set ms \<inter> fst ` set new = {} \<Longrightarrow>
   foldl (fromStore_step env []) (h, new) ms
     = (h @ map (fromStore_new env) ms,
        new @ map (\<lambda>(i, m). (cid m, i)) (List.enumerate (length h) ms))"
proof (induction ms arbitrary: h new)
  case Nil
  show ?case by simp
next
  case (Cons m ms)
  from Cons.prems have fresh: "cid m \<notin> fst ` set new" by auto
  have step: "fromStore_step env [] (h, new) m = (h @ [fromStore_new env m], new @ [(cid m, length h)])"
    using fresh by (simp add: fromStore_step_cases(2) update_fresh_key)
  have d: "distinct (map cid ms)" using Cons.prems by simp
  have dis: "cid ` set ms \<inter> fst ` set (new @ [(cid m, length h)]) = {}"
    using Cons.prems by auto
  from Cons.IH [OF d dis, of "h @ [fromStore_new env m]"] step show ?case by simp
qed

lemma entries_enumerate_alloc:
  "map (\<lambda>(k, r). (k, (h @ map f ms) ! r)) (map (\<lambda>(i, m). (cid m, i)) (List.enumerate (length h) ms))
     = map (\<lambda>m. (cid m, f m)) ms"
proof (induction ms arbitrary: h)
  case Nil
  show ?case by simp
next
  case (Cons m ms)
  from Cons.IH [of "h @ [f m]"] show ?case by simp
qed

lemma enabled_fromStore_new:
  "enabled (fromStore_new env (Cluster_toJSON c))
     = (\<not> isManaged c \<and> truthy (loadApiUrl env (kubeConfigPath c) (contextName c)))"
  by (simp add: fromStore_new_def new_Cluster_def Cluster_toJSON_def isManaged_def Let_def)

lemma toJSON_fromStore_new: "Cluster_toJSON (fromStore_new env m) = m"
  by (simp add: fromStore_new_def new_Cluster_def Cluster_toJSON_def Let_def)

lemma map_of_map_values:
  "map_of (map (\<lambda>(k, r). (k, g r)) al) k = map_option g (map_of al k)"
  by (induction al) auto

lemma map_of_entries: "map_of (entries w) k = map_option (\<lambda>r. objects w ! r) (map_of (clusters w) k)"
  by (simp add: entries_def map_of_map_values)

text \<open>Reloading the snapshot of a well-formed registry into an empty one.\<close>

lemma fromStore_toJSON_fresh:
  assumes "store_ok w" and "clusters f = []"
  shows "entries (fromStore env (toJSON w) f)
    = map (\<lambda>(k, r). (k, fromStore_new env (Cluster_toJSON (objects w ! r)))) (clusters w)"
proof -
  let ?ms = "snap_models (toJSON w)"
  have ids: "map cid ?ms = map fst (clusters w)"
  proof -
    have "\<forall>e \<in> set (clusters w). cid (objects w ! snd e) = fst e"
      using store_ok_entry(2) [OF assms(1)] by auto
    then show ?thesis by (simp add: snap_models_toJSON cid_toJSON case_prod_unfold)
  qed
  have d: "distinct (map cid ?ms)" using assms(1) by (simp add: ids store_ok_def)
  have run: "foldl (fromStore_step env (clusters f)) (objects f, []) ?ms
     = (objects f @ map (fromStore_new env) ?ms,
        map (\<lambda>(i, m). (cid m, i)) (List.enumerate (length (objects f)) ?ms))"
    using fromStore_loop_fresh [OF d, of "[]" env "objects f"] by (simp add: assms(2))
  have "entries (fromStore env (toJSON w) f) = map (\<lambda>m. (cid m, fromStore_new env m)) ?ms"
    using entries_enumerate_alloc [of "objects f" "fromStore_new env" ?ms]
    by (simp add: entries_def fromStore_fields(1,2) run)
  also have "\<dots> = map (\<lambda>(k, r). (k, fromStore_new env (Cluster_toJSON (objects w ! r)))) (clusters w)"
    using store_ok_entry(2) [OF assms(1)]
    by (auto simp: snap_models_toJSON cid_toJSON)
  finally show ?thesis .
qed

text \<open>Reloading the snapshot of a well-formed registry into that same registry.\<close>

lemma fromStore_toJSON_same:
  assumes ok: "store_ok w" and act: "active_ok w"
  shows "fromStore env (toJSON w) w = w\<lparr>removedClusters := []\<rparr>"
proof -
  have run: "foldl (fromStore_step env (clusters w)) (objects w, [])
      (map (\<lambda>(k, r). Cluster_toJSON (objects w ! r)) (clusters w)) = (objects w, clusters w)"
    using fromStore_loop_roundtrip [OF ok, of "[]" "clusters w" env] by simp
  have d: "distinct (map fst (clusters w))" using ok by (simp add: store_ok_def)
  have keys: "\<forall>(k, r) \<in> set (clusters w). cid (objects w ! r) = k"
    using store_ok_entry(2) [OF ok] by auto
  have present: "\<forall>(k, r) \<in> set (clusters w). map_of (clusters w) k \<noteq> None"
    using store_ok_entry(3) [OF ok] by auto
  have "foldl (fromStore_removed_step (objects w) (clusters w)) [] (clusters w)
      = [] @ filter (\<lambda>(k, r). map_of (clusters w) k = None) (clusters w)"
    by (rule fromStore_removed_loop [OF d _ keys]) simp
  also have "\<dots> = []" using present by (auto simp: filter_empty_conv)
  finally have removed: "foldl (fromStore_removed_step (objects w) (clusters w)) [] (clusters w) = []" .
  have active: "(case activeCluster w of None \<Rightarrow> None
      | Some a \<Rightarrow> (case map_of (clusters w) a of None \<Rightarrow> None
          | Some r \<Rightarrow> if enabled (objects w ! r) then Some a else None)) = activeCluster w"
    using act by (auto simp: active_ok_def split: option.splits)
  have snap_active: "snap_activeCluster (toJSON w) = activeCluster w"
    by (simp add: toJSON_def)
  let ?w' = "fromStore env (toJSON w) w"
  have cl: "clusters ?w' = clusters w" and ob: "objects ?w' = objects w"
    by (simp_all add: fromStore_fields(1,2) snap_models_toJSON run)
  have mo: "World.more ?w' = World.more w"
    by (simp add: fromStore_def Let_def)
  have rm: "removedClusters ?w' = []"
    by (simp add: fromStore_fields(3) cl ob removed)
  have ac: "activeCluster ?w' = activeCluster w"
  proof (cases "activeCluster w")
    case None
    then show ?thesis by (simp add: fromStore_fields(4) snap_active)
  next
    case (Some a)
    with act obtain r where "map_of (clusters w) a = Some r" and "enabled (objects w ! r)"
      by (auto simp: active_ok_def split: option.splits)
    with Some show ?thesis
      by (simp add: fromStore_fields(4) snap_active getById_def cl ob)
  qed
  show ?thesis
    by (rule World.equality) (simp_all add: cl ob rm ac mo fromStore_fields(5,6))
qed

lemma enabledClusterIds_entries:
  "enabledClusterIds w = map fst (filter (\<lambda>(k, c). enabled c) (entries w))"
  by (simp add: enabledClusterIds_def entries_def filter_map comp_def case_prod_unfold)

text \<open>
  Claim C7, amended. Let the registry be well formed and its active identifier be none or
  reference an enabled cluster. Reloading its own snapshot into the same registry changes
  nothing but the removed set, which becomes empty: the clusters, their enabled flags and
  the active identifier are as before. Reloading the snapshot into an empty registry
  brings back the same identifiers in the same order; the enabled clusters and the active
  identifier are the same provided each cluster's enabled flag is what the reload
  computes for a new cluster: enabled exactly when it is not owner-managed and its
  configuration resolves to an API URL.
\<close>

theorem toJSON_fromStore_roundtrip:
  assumes ok: "store_ok w" and act: "active_ok w"
  shows "fromStore env (toJSON w) w = w\<lparr>removedClusters := []\<rparr>
   \<and> enabledClusterIds (fromStore env (toJSON w) w) = enabledClusterIds w
   \<and> activeCluster (fromStore env (toJSON w) w) = activeCluster w
   \<and> (clusters f = [] \<and> resolves_as_enabled env w \<longrightarrow>
        map fst (clusters (fromStore env (toJSON w) f)) = map fst (clusters w)
        \<and> enabledClusterIds (fromStore env (toJSON w) f) = enabledClusterIds w
        \<and> activeCluster (fromStore env (toJSON w) f) = activeCluster w)"
proof -
  let ?g = "\<lambda>r. fromStore_new env (Cluster_toJSON (objects w ! r))"
  have same: "fromStore env (toJSON w) w = w\<lparr>removedClusters := []\<rparr>"
    using ok act by (rule fromStore_toJSON_same)
  have fresh: "map fst (clusters (fromStore env (toJSON w) f)) = map fst (clusters w)
        \<and> enabledClusterIds (fromStore env (toJSON w) f) = enabledClusterIds w
        \<and> activeCluster (fromStore env (toJSON w) f) = activeCluster w"
    if f: "clusters f = []" and res: "resolves_as_enabled env w"
  proof (intro conjI)
    let ?w' = "fromStore env (toJSON w) f"
    have ent: "entries ?w' = map (\<lambda>(k, r). (k, ?g r)) (clusters w)"
      using ok f by (rule fromStore_toJSON_fresh)
    have en: "enabled (?g r) = enabled (objects w ! r)" if "(k, r) \<in> set (clusters w)" for k r
      using res that by (auto simp: resolves_as_enabled_def list_all_iff enabled_fromStore_new)
    have "map fst (clusters ?w') = map fst (entries ?w')"
      by (simp add: entries_def case_prod_unfold comp_def)
    then show "map fst (clusters ?w') = map fst (clusters w)"
      by (simp add: ent case_prod_unfold comp_def)
    have filt: "filter (\<lambda>(k, r). enabled (?g r)) (clusters w)
        = filter (\<lambda>(k, r). enabled (objects w ! r)) (clusters w)"
      using en by (intro filter_cong) auto
    have "enabledClusterIds ?w'
        = map fst (filter (\<lambda>(k, c). enabled c) (map (\<lambda>(k, r). (k, ?g r)) (clusters w)))"
      by (simp only: enabledClusterIds_entries ent)
    also have "\<dots> = map fst (filter (\<lambda>(k, r). enabled (?g r)) (clusters w))"
      by (simp add: filter_map comp_def case_prod_unfold)
    also have "\<dots> = enabledClusterIds w"
      by (simp only: filt enabledClusterIds_def)
    finally show "enabledClusterIds ?w' = enabledClusterIds w" .
    show "activeCluster ?w' = activeCluster w"
    proof (cases "activeCluster w")
      case None
      then show ?thesis by (simp add: fromStore_fields(4) toJSON_def)
    next
      case (Some a)
      with act obtain r where r: "map_of (clusters w) a = Some r" and e: "enabled (objects w ! r)"
        by (auto simp: active_ok_def split: option.splits)
      from r have "(a, r) \<in> set (clusters w)" by (rule map_of_SomeD)
      with en e have eg: "enabled (?g r)" by simp
      have "map_of (entries ?w') a = Some (?g r)"
        using r by (simp add: ent map_of_map_values)
      then obtain r' where "getById ?w' a = Some r'" and "objects ?w' ! r' = ?g r"
        by (auto simp: map_of_entries getById_def)
      with eg Some show ?thesis by (simp add: fromStore_fields(4) toJSON_def)
    qed
  qed
  from same fresh show ?thesis by (simp add: enabledClusterIds_def)
qed

theorem toJSON_fromStore_roundtrip_witness:
  "store_ok (setActive (Some ''c1'') world1) \<and> active_ok (setActive (Some ''c1'') world1)
   \<and> clusters world0 = [] \<and> resolves_as_enabled env0 (setActive (Some ''c1'') world1)
   \<and> enabledClusterIds (setActive (Some ''c1'') world1) = [''c1'']
   \<and> fromStore env0 (toJSON (setActive (Some ''c1'') world1)) (setActive (Some ''c1'') world1)
       = setActive (Some ''c1'') world1
   \<and> enabledClusterIds (fromStore env0 (toJSON (setActive (Some ''c1'') world1)) world0) = [''c1'']
   \<and> activeCluster (fromStore env0 (toJSON (setActive (Some ''c1'') world1)) world0) = Some ''c1''"
  using toJSON_fromStore_roundtrip [of "setActive (Some ''c1'') world1" env0 world0]
  by (simp add: store_ok_def refs_ok_def keys_ok_def active_ok_def resolves_as_enabled_def
      enabledClusterIds_def setActive_def world1_def world0_def env0_def model_c1_def
      new_Cluster_def isManaged_def truthy_def Let_def)

text \<open>
  Claim C7, as stated for every registry state, fails. First: a cluster is added and
  activated, then an owner-managed model with the same identifier is added; the active
  identifier still names it, the new cluster is disabled, and reloading the registry's
  own snapshot resets the active identifier to none. Second: an owner-managed cluster
  that has been marked enabled is enabled in memory, but after its snapshot is reloaded
  into an empty registry it is disabled.
\<close>

theorem toJSON_fromStore_loses_active_or_enabled:
  "store_ok world_stale_active
   \<and> activeCluster world_stale_active = Some ''c1''
   \<and> activeCluster (fromStore env0 (toJSON world_stale_active) world_stale_active) = None
   \<and> store_ok world_managed_enabled \<and> active_ok world_managed_enabled
   \<and> enabledClusterIds world_managed_enabled = [''c1'', ''c2'']
   \<and> enabledClusterIds (fromStore env0 (toJSON world_managed_enabled) world0) = [''c1'']"
  by (simp add: world_stale_active_def world_managed_enabled_def addModel_def
      addCluster_Model_simps setActive_def store_ok_def refs_ok_def keys_ok_def active_ok_def
      enabledClusterIds_def world1_def world0_def env0_def model_c1_def new_Cluster_def
      toJSON_def clustersList_def Cluster_toJSON_def
      fromStore_def fromStore_step_def fromStore_new_def fromStore_removed_step_def
      snap_models_def updateModel_def isManaged_def truthy_def Let_def)

section \<open>The representation invariant is kept by every operation\<close>

lemma set_update_cases:
  "e \<in> set (AList.update k v al) \<Longrightarrow> e = (k, v) \<or> e \<in> set al"
  by (induction al) (auto split: if_splits)

lemma store_okI:
  assumes "distinct (map fst (clusters w))"
    and "\<And>k r. (k, r) \<in> set (clusters w) \<Longrightarrow> r < length (objects w) \<and> cid (objects w ! r) = k"
  shows "store_ok w"
  using assms by (auto simp: store_ok_def refs_ok_def keys_ok_def list_all_iff)

lemma store_ok_world0: "store_ok world0"
  by (simp add: store_ok_def refs_ok_def keys_ok_def world0_def)

lemma store_ok_setActive: "store_ok w \<Longrightarrow> store_ok (setActive x w)"
  by (simp add: store_ok_def refs_ok_def keys_ok_def setActive_def Let_def)

lemma store_ok_applyState: "store_ok w \<Longrightarrow> store_ok (applyState i st w)"
proof (cases "getById w i")
  case None
  assume "store_ok w"
  with None show ?thesis by (simp add: applyState_def)
next
  case (Some r0)
  assume ok: "store_ok w"
  show ?thesis
  proof (rule store_okI)
    show "distinct (map fst (clusters (applyState i st w)))"
      using ok Some by (simp add: applyState_def store_ok_def)
  next
    fix k r assume "(k, r) \<in> set (clusters (applyState i st w))"
    then have e: "(k, r) \<in> set (clusters w)" using Some by (simp add: applyState_def)
    note ent = store_ok_entry [OF ok e]
    from ent Some show "r < length (objects (applyState i st w))
        \<and> cid (objects (applyState i st w) ! r) = k"
      by (cases "r = r0") (auto simp: applyState_def setState_def dest: store_ok_lookup [OF ok])
  qed
qed

lemma store_ok_addModel: "store_ok w \<Longrightarrow> store_ok (addModel env m w)"
proof (rule store_okI)
  assume ok: "store_ok w"
  then show "distinct (map fst (clusters (addModel env m w)))"
    by (simp add: addModel_def addCluster_Model_simps store_ok_def AList.distinct_update)
  fix k r assume "(k, r) \<in> set (clusters (addModel env m w))"
  then have "(k, r) = (cid m, length (objects w)) \<or> (k, r) \<in> set (clusters w)"
    by (auto simp: addModel_def addCluster_Model_simps dest: set_update_cases)
  then show "r < length (objects (addModel env m w)) \<and> cid (objects (addModel env m w) ! r) = k"
  proof
    assume "(k, r) = (cid m, length (objects w))"
    then show ?thesis by (simp add: addModel_def addCluster_Model_simps new_Cluster_def)
  next
    assume "(k, r) \<in> set (clusters w)"
    from store_ok_entry(1,2) [OF ok this] show ?thesis
      by (simp add: addModel_def addCluster_Model_simps nth_append)
  qed
qed

lemma addCluster_Instance_simps:
  "clusters (snd (addCluster env (Instance r) w)) = AList.update (cid (objects w ! r)) r (clusters w)"
  "length (objects (snd (addCluster env (Instance r) w))) = length (objects w)"
  "cid (objects (snd (addCluster env (Instance r) w)) ! r') = cid (objects w ! r')"
proof -
  have upd: "cid ((objects w)[r := (objects w ! r)\<lparr>enabled := True\<rparr>] ! r') = cid (objects w ! r')" for r'
    by (cases "r' = r"; cases "r < length (objects w)") (simp_all add: list_update_beyond)
  show "clusters (snd (addCluster env (Instance r) w)) = AList.update (cid (objects w ! r)) r (clusters w)"
    by (simp add: addCluster_def Let_def emit_def upd)
  show "length (objects (snd (addCluster env (Instance r) w))) = length (objects w)"
    by (simp add: addCluster_def Let_def emit_def)
  show "cid (objects (snd (addCluster env (Instance r) w)) ! r') = cid (objects w ! r')"
    by (simp add: addCluster_def Let_def emit_def upd)
qed

lemma store_ok_addInstance:
  assumes ok: "store_ok w" and r: "r < length (objects w)"
  shows "store_ok (snd (addCluster env (Instance r) w))"
proof (rule store_okI)
  let ?w' = "snd (addCluster env (Instance r) w)"
  show "distinct (map fst (clusters ?w'))"
    using ok by (simp add: addCluster_Instance_simps store_ok_def AList.distinct_update)
  fix k r' assume "(k, r') \<in> set (clusters ?w')"
  then have "(k, r') = (cid (objects w ! r), r) \<or> (k, r') \<in> set (clusters w)"
    by (auto simp: addCluster_Instance_simps dest: set_update_cases)
  then show "r' < length (objects ?w') \<and> cid (objects ?w' ! r') = k"
    using r store_ok_entry(1,2) [OF ok] by (auto simp: addCluster_Instance_simps)
qed

lemma store_ok_removeById:
  assumes ok: "store_ok w" and res: "removeById env i w = Inr w'"
  shows "store_ok w'"
proof (cases "getById w i")
  case None
  with res ok show ?thesis
    by (auto simp: removeById_unknown emit_def store_ok_def refs_ok_def keys_ok_def)
next
  case (Some r0)
  from res have cl: "clusters w' = AList.delete i (clusters w)" and ob: "objects w' = objects w"
    by (auto simp: removeById_known [OF Some])
  show ?thesis
  proof (rule store_okI)
    show "distinct (map fst (clusters w'))"
      using ok by (simp add: cl store_ok_def AList.distinct_delete)
    fix k r assume "(k, r) \<in> set (clusters w')"
    then have "(k, r) \<in> set (clusters w)" by (auto simp: cl AList.delete_eq)
    from store_ok_entry(1,2) [OF ok this]
    show "r < length (objects w') \<and> cid (objects w' ! r) = k" by (simp add: ob)
  qed
qed

text \<open>Clusters constructed by the loop are filed under their identifier and never touched again.\<close>

lemma fromStore_loop_allocated:
  assumes cur: "\<forall>(k, r) \<in> set cur. r < n"
    and "n \<le> length h"
    and "\<forall>(k, r) \<in> set new. map_of cur k = None \<longrightarrow> n \<le> r \<and> r < length h \<and> cid (h ! r) = k"
    and "(k, r) \<in> set (snd (foldl (fromStore_step env cur) (h, new) ms))"
    and "map_of cur k = None"
  shows "r < length (fst (foldl (fromStore_step env cur) (h, new) ms))
    \<and> cid (fst (foldl (fromStore_step env cur) (h, new) ms) ! r) = k"
  using assms(2-4)
proof (induction ms arbitrary: h new)
  case Nil
  with assms(5) show ?case by auto
next
  case (Cons m ms)
  show ?case
  proof (cases "map_of cur (cid m)")
    case None
    let ?h1 = "h @ [fromStore_new env m]" and ?new1 = "AList.update (cid m) (length h) new"
    have st: "fromStore_step env cur (h, new) m = (?h1, ?new1)"
      using None by (rule fromStore_step_cases(2))
    have inv: "\<forall>(k, r) \<in> set ?new1. map_of cur k = None \<longrightarrow>
        n \<le> r \<and> r < length ?h1 \<and> cid (?h1 ! r) = k"
    proof (clarify)
      fix k' r' assume mem: "(k', r') \<in> set ?new1" and none: "map_of cur k' = None"
      from mem have "(k', r') = (cid m, length h) \<or> (k', r') \<in> set new"
        by (rule set_update_cases)
      then show "n \<le> r' \<and> r' < length ?h1 \<and> cid (?h1 ! r') = k'"
      proof
        assume "(k', r') = (cid m, length h)"
        with Cons.prems(1) show ?thesis
          by (simp add: fromStore_new_def new_Cluster_def Let_def)
      next
        assume "(k', r') \<in> set new"
        with Cons.prems(2) none show ?thesis by (auto simp: nth_append)
      qed
    qed
    from Cons.IH [of ?h1 ?new1] inv Cons.prems(1,3) show ?thesis by (simp add: st)
  next
    case (Some r0)
    let ?h1 = "h[r0 := updateModel (h ! r0) m]" and ?new1 = "AList.update (cid m) r0 new"
    have st: "fromStore_step env cur (h, new) m = (?h1, ?new1)"
      using Some by (rule fromStore_step_cases(1))
    from Some have "(cid m, r0) \<in> set cur" by (rule map_of_SomeD)
    with cur have r0: "r0 < n" by auto
    have inv: "\<forall>(k, r) \<in> set ?new1. map_of cur k = None \<longrightarrow>
        n \<le> r \<and> r < length ?h1 \<and> cid (?h1 ! r) = k"
    proof (clarify)
      fix k' r' assume mem: "(k', r') \<in> set ?new1" and none: "map_of cur k' = None"
      from mem have "(k', r') = (cid m, r0) \<or> (k', r') \<in> set new"
        by (rule set_update_cases)
      then show "n \<le> r' \<and> r' < length ?h1 \<and> cid (?h1 ! r') = k'"
      proof
        assume "(k', r') = (cid m, r0)"
        with Some none show ?thesis by simp
      next
        assume "(k', r') \<in> set new"
        with Cons.prems(2) none r0 show ?thesis by auto
      qed
    qed
    from Cons.IH [of ?h1 ?new1] inv Cons.prems(1,3) show ?thesis by (simp add: st)
  qed
qed

lemma fromStore_loop_distinct:
  "distinct (map fst new) \<Longrightarrow>
   distinct (map fst (snd (foldl (fromStore_step env cur) (h, new) ms)))"
proof (induction ms arbitrary: h new)
  case Nil
  then show ?case by simp
next
  case (Cons m ms)
  obtain h1 new1 where st: "fromStore_step env cur (h, new) m = (h1, new1)"
    by (cases "fromStore_step env cur (h, new) m")
  have "snd (fromStore_step env cur (h, new) m) = AList.update (cid m)
      (case map_of cur (cid m) of None \<Rightarrow> length h | Some r \<Rightarrow> r) new"
    by (simp add: fromStore_step_def split: option.splits)
  with st Cons.prems have "distinct (map fst new1)" by (simp add: AList.distinct_update)
  with Cons.IH [of new1 h1] show ?case by (simp add: st)
qed

lemma store_ok_fromStore:
  assumes ok: "store_ok w"
  shows "store_ok (fromStore env snap w)"
proof (rule store_okI)
  let ?w' = "fromStore env snap w" and ?ms = "snap_models snap"
  let ?run = "foldl (fromStore_step env (clusters w)) (objects w, []) ?ms"
  show d: "distinct (map fst (clusters ?w'))"
    using fromStore_loop_distinct [of "[]" env "clusters w" "objects w" ?ms]
    by (simp add: fromStore_fields(1))
  fix k r assume mem: "(k, r) \<in> set (clusters ?w')"
  have look: "map_of (clusters ?w') k = Some r" using d mem by (rule map_of_is_SomeI)
  have kin: "k \<in> cid ` set ?ms"
    using look fromStore_clusters_None [of env snap w k] by auto
  show "r < length (objects ?w') \<and> cid (objects ?w' ! r) = k"
  proof (cases "map_of (clusters w) k")
    case None
    have cur: "\<forall>(k, r) \<in> set (clusters w). r < length (objects w)"
      using store_ok_entry(1) [OF ok] by auto
    from mem have "(k, r) \<in> set (snd ?run)" by (simp add: fromStore_fields(1))
    with fromStore_loop_allocated [OF cur, of "objects w" "[]" k r env ?ms] None
    show ?thesis by (simp add: fromStore_fields(2))
  next
    case (Some r0)
    from fromStore_loop_map [of env "clusters w" "objects w" "[]" ?ms k] kin Some
    have "map_of (clusters ?w') k = Some r0" by (simp add: fromStore_fields(1))
    with look have eq: "r = r0" by simp
    from Some have e: "(k, r0) \<in> set (clusters w)" by (rule map_of_SomeD)
    have "r0 < length (objects w)" using store_ok_entry(1) [OF ok e] .
    with fromStore_loop_length [of "objects w" env "clusters w" "[]" ?ms]
    have "r0 < length (objects ?w')" by (simp add: fromStore_fields(2))
    moreover have "cid (objects ?w' ! r0) = k"
      using fromStore_loop_entry(2) [OF ok e, of env "[]" ?ms] by (simp add: fromStore_fields(2))
    ultimately show ?thesis by (simp add: eq)
  qed
qed

section \<open>The active identifier\<close>

lemma active_ok_removeById:
  assumes "active_ok w" and "removeById env i w = Inr w'"
  shows "active_ok w'"
proof (cases "getById w i")
  case None
  with assms show ?thesis
    by (auto simp: removeById_unknown emit_def active_ok_def split: option.splits)
next
  case (Some r)
  with assms show ?thesis
    by (auto simp: removeById_known active_ok_def AList.delete_conv' split: option.splits if_splits)
qed

text \<open>
  Claim C1, as stated, fails where it says that the active identifier always references
  an enabled cluster: a cluster is added and activated, then an owner-managed model with
  the same identifier is added; the registry is well formed, the active identifier still
  names the cluster, and the cluster is now disabled.
\<close>

theorem addCluster_leaves_active_on_disabled:
  "store_ok (addModel env0 (model_c1\<lparr>ownerRef := Some ''ext''\<rparr>)
              (setActive (Some ''c1'') (addModel env0 model_c1 world0)))
   \<and> activeCluster (setActive (Some ''c1'') (addModel env0 model_c1 world0)) = Some ''c1''
   \<and> active_ok (setActive (Some ''c1'') (addModel env0 model_c1 world0))
   \<and> activeCluster (addModel env0 (model_c1\<lparr>ownerRef := Some ''ext''\<rparr>)
              (setActive (Some ''c1'') (addModel env0 model_c1 world0))) = Some ''c1''
   \<and> \<not> active_ok (addModel env0 (model_c1\<lparr>ownerRef := Some ''ext''\<rparr>)
              (setActive (Some ''c1'') (addModel env0 model_c1 world0)))"
  by (simp add: addModel_def addCluster_Model_simps setActive_def store_ok_def refs_ok_def
      keys_ok_def active_ok_def world0_def env0_def model_c1_def new_Cluster_def Let_def)

text \<open>
  Claim C1, amended. For every registry state and every identifier \<open>i\<close>, after
  \<^verbatim>\<open>setActive(i)\<close> the active identifier is \<open>i\<close> if a cluster with that identifier
  exists and is enabled, and none otherwise (also for \<^verbatim>\<open>setActive(null)\<close>), and nothing
  else of the registry has changed. So right after \<^verbatim>\<open>setActive\<close>, and likewise right
  after \<^verbatim>\<open>fromStore\<close>, the active identifier, when set, references an enabled cluster,
  and \<^verbatim>\<open>removeById\<close> keeps it so.
\<close>

theorem setActive_enabled_or_none:
  "activeCluster (setActive (Some i) w) =
     (case getById w i of None \<Rightarrow> None
      | Some r \<Rightarrow> if enabled (objects w ! r) then Some i else None)
   \<and> activeCluster (setActive None w) = None
   \<and> active_ok (setActive x w)
   \<and> clusters (setActive x w) = clusters w
   \<and> objects (setActive x w) = objects w
   \<and> active_ok (fromStore env snap w)
   \<and> (active_ok w \<and> removeById env j w = Inr w' \<longrightarrow> active_ok w')"
proof -
  have "activeCluster (setActive (Some i) w) =
     (case getById w i of None \<Rightarrow> None
      | Some r \<Rightarrow> if enabled (objects w ! r) then Some i else None)
   \<and> activeCluster (setActive None w) = None
   \<and> active_ok (setActive x w)
   \<and> clusters (setActive x w) = clusters w
   \<and> objects (setActive x w) = objects w"
    by (cases x) (auto simp: setActive_def active_ok_def getById_def Let_def split: option.splits)
  with fromStore_active_ok [of env snap w] active_ok_removeById [of w env j w']
  show ?thesis by blast
qed

theorem setActive_enabled_or_none_witness:
  "activeCluster (setActive (Some ''c1'') world1) = Some ''c1''
   \<and> activeCluster (setActive (Some ''c2'') world1) = None
   \<and> activeCluster (setActive (Some ''c3'') world1) = None
   \<and> active_ok (setActive (Some ''c1'') world1)
   \<and> active_ok (fromStore env0 snapshot23 world1)
   \<and> removeById env0 ''c2'' (setActive (Some ''c1'') world1)
       = Inr (world1\<lparr>activeCluster := Some ''c1'', clusters := [(''c1'', 0)],
                      emitted := [(''cluster'', ''remove'')]\<rparr>)
   \<and> active_ok (world1\<lparr>activeCluster := Some ''c1'', clusters := [(''c1'', 0)],
                      emitted := [(''cluster'', ''remove'')]\<rparr>)"
proof -
  let ?w = "setActive (Some ''c1'') world1"
  let ?w' = "world1\<lparr>activeCluster := Some ''c1'', clusters := [(''c1'', 0)],
                      emitted := [(''cluster'', ''remove'')]\<rparr>"
  have look: "getById ?w ''c2'' = Some 1"
    by (simp add: getById_def setActive_def world1_def world0_def Let_def)
  have other: "kubeConfigPath (objects ?w ! 1) \<noteq> getCustomKubeConfigPath env0 ''c2''"
    by (simp add: setActive_def world1_def world0_def new_Cluster_def model_c1_def env0_def
        Let_def getCustomKubeConfigPath_def path_resolve_def isAbsolute_def normalizeString_def)
  have rem: "removeById env0 ''c2'' ?w = Inr ?w'"
    using other
    by (simp add: removeById_known [OF look])
       (simp add: setActive_def world1_def world0_def new_Cluster_def model_c1_def env0_def Let_def)
  have act: "active_ok ?w"
    by (simp add: active_ok_def setActive_def world1_def world0_def new_Cluster_def Let_def)
  from setActive_enabled_or_none [of "''c1''" world1 "Some ''c1''" env0 snapshot23 "''c2''" ?w']
    setActive_enabled_or_none [of "''c2''" world1 "Some ''c1''" env0 snapshot23 "''c2''" ?w']
    setActive_enabled_or_none [of "''c3''" world1 "Some ''c1''" env0 snapshot23 "''c2''" ?w']
    setActive_enabled_or_none [of "''c1''" ?w "Some ''c1''" env0 snapshot23 "''c2''" ?w']
    rem act
  show ?thesis
    by (simp add: getById_def world1_def world0_def new_Cluster_def)
qed

end
